theory Spec2Isabelle
  imports Complex_Main
begin

section \<open>Data model of src/app.py\<close>

text \<open>
  The four tables of the application (\<^verbatim>\<open>User\<close>, \<^verbatim>\<open>Transaction\<close>, \<^verbatim>\<open>Product\<close>,
  \<^verbatim>\<open>Purchase\<close>) are records; the database is a record of four lists of rows, in insertion
  order. Only the columns that the money and mining routes read or write are kept
  (\<^verbatim>\<open>password_hash\<close>, the \<^verbatim>\<open>created_at\<close> stamps, \<^verbatim>\<open>Product.description\<close> and the key of a
  \<^verbatim>\<open>Transaction\<close> play no part in them).

  \<^item> \<^verbatim>\<open>Integer\<close> keys are \<open>int\<close>.
  \<^item> \<^verbatim>\<open>Float\<close> columns are \<open>real\<close>: arithmetic is exact, so rounding, infinities and NaN
    of the machine floats are not part of this model. The non-finite values that
    \<^verbatim>\<open>float()\<close> can parse are followed separately, in the section on the parsed amount,
    which reads the tests of the three money routes on Python floats.
  \<^item> A \<^verbatim>\<open>datetime\<close> is an \<open>int\<close>, the number of microseconds since the epoch (the
    resolution of \<^verbatim>\<open>datetime\<close>); a \<^verbatim>\<open>timedelta\<close> is an \<open>int\<close> of microseconds.
  \<^item> A nullable column that the code tests for \<^verbatim>\<open>None\<close> is an \<open>option\<close>.
\<close>

record user =
  user_id :: int
  username :: string
  balance :: real
  referral_code :: string
  referred_by :: "string option"
  last_claim_at :: "int option"

record transaction =
  tx_user_id :: int
  tx_type :: string
  amount :: real
  details :: string

record product =
  product_id :: int
  product_name :: string
  slug :: string
  price :: real
  hourly_rate :: real
  active :: bool

record purchase =
  purchase_id :: int
  purchase_user_id :: int
  purchase_product_id :: int
  purchased_at :: "int option"
  last_mined_at :: "int option"
  accrued :: real

record store =
  users :: "user list"
  transactions :: "transaction list"
  products :: "product list"
  purchases :: "purchase list"

text \<open>
  What a request answers: one constructor for each flashed message of the source, with the
  values the message is formatted from, and \<open>Server_Error\<close> for an uncaught exception
  (attribute access on \<^verbatim>\<open>None\<close>, arithmetic on \<^verbatim>\<open>None\<close>), which ends the request before
  \<^verbatim>\<open>db.commit()\<close> and so leaves the database as it was.
\<close>

datatype response =
    Registered
  | Username_And_Password_Required
  | Username_Taken
  | Recharged real
  | Invalid_Amount
  | Topup_Successful real
  | Insufficient_Or_Invalid
  | Enter_Positive_Amount
  | Dollar_Done "string option" real
  | Invalid_Action_Or_Insufficient
  | Next_Claim_In int
  | Daily_Bonus_Claimed
  | Product_Not_Found
  | Insufficient_To_Buy
  | Product_Purchased
  | Mining_Page
  | Claimed_From_Mining real
  | Server_Error

section \<open>Primitives of the ORM session\<close>

definition empty_store :: store where
  "empty_store = \<lparr>users = [], transactions = [], products = [], purchases = []\<rparr>"

text \<open>\<^verbatim>\<open>db.get(User, key)\<close>: the row with that primary key, or \<^verbatim>\<open>None\<close>.\<close>

definition get_user :: "store \<Rightarrow> int \<Rightarrow> user option" where
  "get_user s uid = find (\<lambda>u. user_id u = uid) (users s)"

text \<open>An attribute assignment on the row with primary key \<open>uid\<close>.\<close>

definition update_user :: "int \<Rightarrow> (user \<Rightarrow> user) \<Rightarrow> store \<Rightarrow> store" where
  "update_user uid f s = s\<lparr>users := map (\<lambda>u. if user_id u = uid then f u else u) (users s)\<rparr>"

text \<open>\<^verbatim>\<open>db.add(Transaction(...))\<close>.\<close>

definition add_tx :: "transaction \<Rightarrow> store \<Rightarrow> store" where
  "add_tx t s = s\<lparr>transactions := transactions s @ [t]\<rparr>"

text \<open>
  The key the database gives a new row: one it has not used, here one more than the
  largest key in the table (1 in an empty table), which is the rule of SQLite, the default
  \<^verbatim>\<open>DATABASE_URL\<close>.
\<close>

definition next_id :: "int list \<Rightarrow> int" where
  "next_id ks = foldr max ks 0 + 1"

text \<open>\<^verbatim>\<open>timedelta(hours=24)\<close> in microseconds.\<close>

definition hours24 :: int where
  "hours24 = 86400000000"

section \<open>init_db and register\<close>

definition seed_products :: "product list" where
  "seed_products =
    [\<lparr>product_id = 1, product_name = ''Starter Rig'', slug = ''starter-rig'',
      price = 100, hourly_rate = 2 / 100, active = True\<rparr>,
     \<lparr>product_id = 2, product_name = ''Pro Miner'', slug = ''pro-miner'',
      price = 250, hourly_rate = 6 / 100, active = True\<rparr>,
     \<lparr>product_id = 3, product_name = ''Mega Farm'', slug = ''mega-farm'',
      price = 500, hourly_rate = 14 / 100, active = True\<rparr>]"

definition init_db :: "store \<Rightarrow> store" where
  "init_db s = (if products s = [] then s\<lparr>products := seed_products\<rparr> else s)"

text \<open>
  \<^verbatim>\<open>register\<close> (POST). \<open>name\<close> is the stripped user name, \<open>code\<close> the referral code that
  \<^verbatim>\<open>gen_ref_code()\<close> drew, \<open>ref\<close> is \<^verbatim>\<open>session.get("ref")\<close>. The two \<^verbatim>\<open>unique=True\<close> columns
  raise \<^verbatim>\<open>IntegrityError\<close> at commit, which the route answers by a rollback.
\<close>

definition register :: "store \<Rightarrow> string \<Rightarrow> string \<Rightarrow> string \<Rightarrow> string option \<Rightarrow> store \<times> response" where
  "register s name password code ref =
    (if name = [] \<or> password = [] then (s, Username_And_Password_Required)
     else if (\<exists>u \<in> set (users s). username u = name \<or> referral_code u = code)
       then (s, Username_Taken)
     else (s\<lparr>users := users s @
              [\<lparr>user_id = next_id (map user_id (users s)), username = name, balance = 0,
                referral_code = code, referred_by = ref, last_claim_at = None\<rparr>]\<rparr>,
           Registered))"

section \<open>Money actions\<close>

text \<open>\<^verbatim>\<open>recharge\<close> (POST) with the parsed amount.\<close>

definition recharge :: "store \<Rightarrow> int \<Rightarrow> real \<Rightarrow> store \<times> response" where
  "recharge s uid amt =
    (if amt > 0 then
       (case get_user s uid of
          None \<Rightarrow> (s, Server_Error)
        | Some u \<Rightarrow>
            (add_tx \<lparr>tx_user_id = user_id u, tx_type = ''recharge'', amount = amt,
                     details = ''Mobile recharge (demo credit)''\<rparr>
               (update_user uid (\<lambda>v. v\<lparr>balance := balance v + amt\<rparr>) s),
             Recharged amt))
     else (s, Invalid_Amount))"

text \<open>\<^verbatim>\<open>topup\<close> (POST): one test, \<^verbatim>\<open>amount > 0 and user.balance >= amount\<close>, and one message
  when it fails.\<close>

definition topup :: "store \<Rightarrow> int \<Rightarrow> real \<Rightarrow> store \<times> response" where
  "topup s uid amt =
    (if amt > 0 then
       (case get_user s uid of
          None \<Rightarrow> (s, Server_Error)
        | Some u \<Rightarrow>
            if balance u \<ge> amt then
              (add_tx \<lparr>tx_user_id = user_id u, tx_type = ''topup'', amount = - amt,
                       details = ''Diamond top-up (demo spend)''\<rparr>
                 (update_user uid (\<lambda>v. v\<lparr>balance := balance v - amt\<rparr>) s),
               Topup_Successful amt)
            else (s, Insufficient_Or_Invalid))
     else (s, Insufficient_Or_Invalid))"

text \<open>\<^verbatim>\<open>dollar\<close> (POST); \<open>action\<close> is \<^verbatim>\<open>request.form.get("action")\<close>.\<close>

definition dollar :: "store \<Rightarrow> int \<Rightarrow> string option \<Rightarrow> real \<Rightarrow> store \<times> response" where
  "dollar s uid action amt =
    (if amt \<le> 0 then (s, Enter_Positive_Amount)
     else if action = Some ''buy'' then
       (case get_user s uid of
          None \<Rightarrow> (s, Server_Error)
        | Some u \<Rightarrow>
            if balance u \<ge> amt then
              (add_tx \<lparr>tx_user_id = user_id u, tx_type = ''buy'', amount = - amt,
                       details = ''Bought dollars (demo)''\<rparr>
                 (update_user uid (\<lambda>v. v\<lparr>balance := balance v - amt\<rparr>) s),
               Dollar_Done action amt)
            else (s, Invalid_Action_Or_Insufficient))
     else if action = Some ''sell'' then
       (case get_user s uid of
          None \<Rightarrow> (s, Server_Error)
        | Some u \<Rightarrow>
            (add_tx \<lparr>tx_user_id = user_id u, tx_type = ''sell'', amount = amt,
                     details = ''Sold dollars (demo)''\<rparr>
               (update_user uid (\<lambda>v. v\<lparr>balance := balance v + amt\<rparr>) s),
             Dollar_Done action amt))
     else (s, Invalid_Action_Or_Insufficient))"

section \<open>Daily claim\<close>

text \<open>
  The guard of \<^verbatim>\<open>daily_claim\<close>: \<^verbatim>\<open>user.last_claim_at and now - user.last_claim_at <
  timedelta(hours=24)\<close>. When it holds the result is the \<^verbatim>\<open>remaining\<close> of the source.
\<close>

definition claim_wait :: "user \<Rightarrow> int \<Rightarrow> int option" where
  "claim_wait u now =
    (case last_claim_at u of
       None \<Rightarrow> None
     | Some lc \<Rightarrow> if now - lc < hours24 then Some (hours24 - (now - lc)) else None)"

text \<open>
  The referrer that a claim of \<open>u\<close> pays: \<^verbatim>\<open>if user.referred_by\<close> is false for \<^verbatim>\<open>None\<close> and
  for the empty string; otherwise the query
  \<^verbatim>\<open>db.query(User).filter_by(referral_code=user.referred_by).first()\<close> runs against the
  database, where nothing of the request has been flushed (\<^verbatim>\<open>autoflush=False\<close>).
\<close>

definition referrer_of :: "store \<Rightarrow> user \<Rightarrow> user option" where
  "referrer_of s u =
    (case referred_by u of
       None \<Rightarrow> None
     | Some c \<Rightarrow> if c = [] then None else find (\<lambda>r. referral_code r = c) (users s))"

text \<open>
  \<^verbatim>\<open>daily_claim\<close>, with \<open>now\<close> the reading of \<^verbatim>\<open>datetime.utcnow()\<close>. With the session's
  identity map the referrer may be the claiming row itself, which the updates by key
  below cover.
\<close>

definition daily_claim :: "store \<Rightarrow> int \<Rightarrow> int \<Rightarrow> store \<times> response" where
  "daily_claim s uid now =
    (case get_user s uid of
       None \<Rightarrow> (s, Server_Error)
     | Some u \<Rightarrow>
         (case claim_wait u now of
            Some remaining \<Rightarrow> (s, Next_Claim_In remaining)
          | None \<Rightarrow>
              (let s1 = update_user uid (\<lambda>v. v\<lparr>balance := balance v + 5\<rparr>) s;
                   s2 = update_user uid (\<lambda>v. v\<lparr>last_claim_at := Some now\<rparr>) s1;
                   s3 = add_tx \<lparr>tx_user_id = user_id u, tx_type = ''bonus'', amount = 5,
                                details = ''Daily claim bonus''\<rparr> s2
               in (case referrer_of s u of
                     None \<Rightarrow> (s3, Daily_Bonus_Claimed)
                   | Some r \<Rightarrow>
                       (let s4 = add_tx \<lparr>tx_user_id = user_id r, tx_type = ''bonus'',
                              amount = 1,
                              details = ''Referral bonus from '' @ username u\<rparr> s3;
                            s5 = update_user (user_id r)
                              (\<lambda>v. v\<lparr>balance := balance v + 1\<rparr>) s4;
                            s6 = update_user uid (\<lambda>v. v\<lparr>referred_by := None\<rparr>) s5
                        in (s6, Daily_Bonus_Claimed))))))"

section \<open>Products and mining\<close>

text \<open>
  \<^verbatim>\<open>buy\<close>. The new \<^verbatim>\<open>Purchase\<close> row names only its user and its product; the columns
  \<^verbatim>\<open>purchased_at\<close> and \<^verbatim>\<open>last_mined_at\<close> each have \<^verbatim>\<open>default=datetime.utcnow\<close>, a callable
  that is run once for each column when the row is inserted, and \<^verbatim>\<open>accrued\<close> has the
  default 0.0. \<open>t_purchased\<close> and \<open>t_mined\<close> are these two readings of the clock.
\<close>

definition buy :: "store \<Rightarrow> int \<Rightarrow> string \<Rightarrow> int \<Rightarrow> int \<Rightarrow> store \<times> response" where
  "buy s uid sl t_purchased t_mined =
    (case find (\<lambda>p. slug p = sl \<and> active p) (products s) of
       None \<Rightarrow> (s, Product_Not_Found)
     | Some p \<Rightarrow>
         (case get_user s uid of
            None \<Rightarrow> (s, Server_Error)
          | Some u \<Rightarrow>
              if balance u < price p then (s, Insufficient_To_Buy)
              else
                (let s1 = update_user uid (\<lambda>v. v\<lparr>balance := balance v - price p\<rparr>) s;
                     s2 = s1\<lparr>purchases := purchases s1 @
                            [\<lparr>purchase_id = next_id (map purchase_id (purchases s1)),
                              purchase_user_id = user_id u,
                              purchase_product_id = product_id p,
                              purchased_at = Some t_purchased,
                              last_mined_at = Some t_mined,
                              accrued = 0\<rparr>]\<rparr>;
                     s3 = add_tx \<lparr>tx_user_id = user_id u, tx_type = ''buy_product'',
                                  amount = - price p,
                                  details = ''Bought '' @ product_name p\<rparr> s2
                 in (s3, Product_Purchased))))"

text \<open>\<^verbatim>\<open>p.last_mined_at or p.purchased_at\<close>: the stamp the elapsed time is counted from.\<close>

definition last_accrual :: "purchase \<Rightarrow> int option" where
  "last_accrual p = (case last_mined_at p of Some t \<Rightarrow> Some t | None \<Rightarrow> purchased_at p)"

text \<open>
  The body of the loop of \<^verbatim>\<open>mining\<close> for one purchase (the \<^verbatim>\<open>accrue\<close> of the
  specification). \<open>None\<close> is an exception: \<^verbatim>\<open>now - None\<close> when both stamps are unset, or
  \<^verbatim>\<open>p.product\<close> being \<^verbatim>\<open>None\<close> when the rate is read. \<^verbatim>\<open>total_seconds()\<close> is the
  microseconds divided by \<open>10\<^sup>6\<close>.
\<close>

definition accrue :: "product list \<Rightarrow> int \<Rightarrow> purchase \<Rightarrow> purchase option" where
  "accrue ps now p =
    (case last_accrual p of
       None \<Rightarrow> None
     | Some t0 \<Rightarrow>
         (let hrs = real_of_int (now - t0) / 1000000 / 3600 in
          if hrs > 0 then
            (case find (\<lambda>q. product_id q = purchase_product_id p) ps of
               None \<Rightarrow> None
             | Some q \<Rightarrow>
                 Some (p\<lparr>accrued := accrued p + hourly_rate q * hrs, last_mined_at := Some now\<rparr>))
          else Some p))"

text \<open>The loop \<^verbatim>\<open>for p in user.purchases\<close> of \<^verbatim>\<open>mining\<close>, over the rows of the table.\<close>

fun accrue_all :: "product list \<Rightarrow> int \<Rightarrow> int \<Rightarrow> purchase list \<Rightarrow> purchase list option" where
  "accrue_all ps now uid [] = Some []"
| "accrue_all ps now uid (p # rest) =
    (if purchase_user_id p = uid then
       (case accrue ps now p of
          None \<Rightarrow> None
        | Some p' \<Rightarrow> map_option ((#) p') (accrue_all ps now uid rest))
     else map_option ((#) p) (accrue_all ps now uid rest))"

definition mining :: "store \<Rightarrow> int \<Rightarrow> int \<Rightarrow> store \<times> response" where
  "mining s uid now =
    (case get_user s uid of
       None \<Rightarrow> (s, Server_Error)
     | Some u \<Rightarrow>
         (case accrue_all (products s) now uid (purchases s) of
            None \<Rightarrow> (s, Server_Error)
          | Some ps' \<Rightarrow> (s\<lparr>purchases := ps'\<rparr>, Mining_Page)))"

text \<open>
  The loop of \<^verbatim>\<open>mining_claim\<close>: the rows after the loop and the running \<^verbatim>\<open>total\<close>.
\<close>

fun claim_loop :: "int \<Rightarrow> purchase list \<Rightarrow> real \<Rightarrow> purchase list \<times> real" where
  "claim_loop uid [] tot = ([], tot)"
| "claim_loop uid (p # rest) tot =
    (if purchase_user_id p = uid \<and> accrued p > 0 then
       (let (rest', tot') = claim_loop uid rest (tot + accrued p)
        in (p\<lparr>accrued := 0\<rparr> # rest', tot'))
     else
       (let (rest', tot') = claim_loop uid rest tot
        in (p # rest', tot')))"

definition mining_claim :: "store \<Rightarrow> int \<Rightarrow> store \<times> response" where
  "mining_claim s uid =
    (case get_user s uid of
       None \<Rightarrow> (s, Server_Error)
     | Some u \<Rightarrow>
         (let (ps', tot) = claim_loop uid (purchases s) 0;
              s1 = s\<lparr>purchases := ps'\<rparr>
          in if tot > 0 then
               (add_tx \<lparr>tx_user_id = user_id u, tx_type = ''mining'', amount = tot,
                        details = ''Claimed mining earnings''\<rparr>
                  (update_user uid (\<lambda>v. v\<lparr>balance := balance v + tot\<rparr>) s1),
                Claimed_From_Mining tot)
             else (s1, Claimed_From_Mining tot)))"

section \<open>Requests and runs\<close>

text \<open>
  A request names the route, the \<^verbatim>\<open>session["user_id"]\<close> it runs under, the parsed
  form values and the readings of the clock it takes.
\<close>

datatype request =
    Register string string string "string option"
  | Recharge int real
  | Topup int real
  | Dollar int "string option" real
  | Daily_Claim int int
  | Buy int string int int
  | Mining int int
  | Mining_Claim int

fun handle :: "store \<Rightarrow> request \<Rightarrow> store \<times> response" where
  "handle s (Register name password code ref) = register s name password code ref"
| "handle s (Recharge uid amt) = recharge s uid amt"
| "handle s (Topup uid amt) = topup s uid amt"
| "handle s (Dollar uid action amt) = dollar s uid action amt"
| "handle s (Daily_Claim uid now) = daily_claim s uid now"
| "handle s (Buy uid sl t_purchased t_mined) = buy s uid sl t_purchased t_mined"
| "handle s (Mining uid now) = mining s uid now"
| "handle s (Mining_Claim uid) = mining_claim s uid"

fun run :: "store \<Rightarrow> request list \<Rightarrow> store" where
  "run s [] = s"
| "run s (rq # rqs) = run (fst (handle s rq)) rqs"

section \<open>The parsed amount as a Python float\<close>

text \<open>
  The three money routes parse the form field with
  \<^verbatim>\<open>float(request.form.get("amount", 0) or 0)\<close>. Besides decimal numerals \<^verbatim>\<open>float()\<close> accepts
  the strings \<^verbatim>\<open>nan\<close>, \<^verbatim>\<open>inf\<close> and \<^verbatim>\<open>infinity\<close> (with a sign, in any case), so the amount
  is a finite number, one of the two infinities, or NaN. Finite values are kept exact, as
  in the rest of the model (no rounding, no overflow to an infinity).
\<close>

datatype pyfloat = Finite real | Pos_Inf | Neg_Inf | NaN

text \<open>
  The comparisons \<^verbatim>\<open><=\<close>, \<^verbatim>\<open><\<close>, \<^verbatim>\<open>>\<close> and \<^verbatim>\<open>>=\<close> of Python floats (IEEE 754): every
  comparison with NaN is \<^verbatim>\<open>False\<close>.
\<close>

fun py_le :: "pyfloat \<Rightarrow> pyfloat \<Rightarrow> bool" where
  "py_le NaN y = False"
| "py_le x NaN = False"
| "py_le Neg_Inf y = True"
| "py_le x Pos_Inf = True"
| "py_le (Finite x) (Finite y) = (x \<le> y)"
| "py_le x y = False"

fun py_lt :: "pyfloat \<Rightarrow> pyfloat \<Rightarrow> bool" where
  "py_lt NaN y = False"
| "py_lt x NaN = False"
| "py_lt Pos_Inf y = False"
| "py_lt x Neg_Inf = False"
| "py_lt (Finite x) (Finite y) = (x < y)"
| "py_lt x y = True"

definition py_gt :: "pyfloat \<Rightarrow> pyfloat \<Rightarrow> bool" where
  "py_gt x y = py_lt y x"

definition py_ge :: "pyfloat \<Rightarrow> pyfloat \<Rightarrow> bool" where
  "py_ge x y = py_le y x"

text \<open>
  Negation, \<^verbatim>\<open>+\<close> and \<^verbatim>\<open>-\<close> of Python floats: NaN is absorbing, and the sum of the two
  opposite infinities is NaN.
\<close>

fun py_neg :: "pyfloat \<Rightarrow> pyfloat" where
  "py_neg (Finite x) = Finite (- x)"
| "py_neg Pos_Inf = Neg_Inf"
| "py_neg Neg_Inf = Pos_Inf"
| "py_neg NaN = NaN"

fun py_add :: "pyfloat \<Rightarrow> pyfloat \<Rightarrow> pyfloat" where
  "py_add NaN y = NaN"
| "py_add x NaN = NaN"
| "py_add Pos_Inf Neg_Inf = NaN"
| "py_add Neg_Inf Pos_Inf = NaN"
| "py_add Pos_Inf y = Pos_Inf"
| "py_add x Pos_Inf = Pos_Inf"
| "py_add Neg_Inf y = Neg_Inf"
| "py_add x Neg_Inf = Neg_Inf"
| "py_add (Finite x) (Finite y) = Finite (x + y)"

definition py_sub :: "pyfloat \<Rightarrow> pyfloat \<Rightarrow> pyfloat" where
  "py_sub x y = py_add x (py_neg y)"

text \<open>
  The three money routes (POST) read on the \<^verbatim>\<open>user.balance\<close> of the logged-in user: the
  argument \<open>bal\<close> is the balance before the request, the result is the balance the request
  commits together with the amount of the \<^verbatim>\<open>Transaction\<close> it adds (\<open>None\<close> when the route
  flashes its error message and adds none). The tests are those of the source:
  \<^verbatim>\<open>if amount > 0\<close> in \<^verbatim>\<open>recharge\<close>, \<^verbatim>\<open>if amount > 0 and user.balance >= amount\<close> in
  \<^verbatim>\<open>topup\<close>, and in \<^verbatim>\<open>dollar\<close> first \<^verbatim>\<open>if amount <= 0\<close> (the rejection), then
  \<^verbatim>\<open>if action == "buy" and user.balance >= amount\<close>, then \<^verbatim>\<open>elif action == "sell"\<close>.
\<close>

definition recharge_float :: "pyfloat \<Rightarrow> pyfloat \<Rightarrow> pyfloat \<times> pyfloat option" where
  "recharge_float bal amt =
     (if py_gt amt (Finite 0) then (py_add bal amt, Some amt) else (bal, None))"

definition topup_float :: "pyfloat \<Rightarrow> pyfloat \<Rightarrow> pyfloat \<times> pyfloat option" where
  "topup_float bal amt =
     (if py_gt amt (Finite 0) \<and> py_ge bal amt then (py_sub bal amt, Some (py_neg amt))
      else (bal, None))"

definition dollar_float :: "pyfloat \<Rightarrow> string option \<Rightarrow> pyfloat \<Rightarrow> pyfloat \<times> pyfloat option" where
  "dollar_float bal action amt =
     (if py_le amt (Finite 0) then (bal, None)
      else if action = Some ''buy'' \<and> py_ge bal amt then (py_sub bal amt, Some (py_neg amt))
      else if action = Some ''sell'' then (py_add bal amt, Some amt)
      else (bal, None))"

section \<open>Quantities named in the statements\<close>

text \<open>What the loop of \<^verbatim>\<open>mining_claim\<close> adds up: the accrued amounts of the user's purchases
  that pass its test \<^verbatim>\<open>p.accrued > 0\<close>.\<close>

definition positive_total :: "store \<Rightarrow> int \<Rightarrow> real" where
  "positive_total s uid =
     sum_list (map accrued (filter (\<lambda>p. purchase_user_id p = uid \<and> 0 < accrued p) (purchases s)))"

text \<open>The total of the specification: \<open>accrued\<close> summed across all purchases of the user.\<close>

definition claimable :: "store \<Rightarrow> int \<Rightarrow> real" where
  "claimable s uid =
     sum_list (map accrued (filter (\<lambda>p. purchase_user_id p = uid) (purchases s)))"

text \<open>
  The audit trail of a user: the amounts of the transactions recorded for the user, added
  up in the order of insertion, starting from the initial balance 0.
\<close>

definition tx_sum :: "store \<Rightarrow> int \<Rightarrow> real" where
  "tx_sum s uid =
     foldl (+) 0 (map amount (filter (\<lambda>t. tx_user_id t = uid) (transactions s)))"

text \<open>The transactions that a request appended: those of \<open>s'\<close> beyond the ones of \<open>s\<close>.\<close>

definition appended :: "store \<Rightarrow> store \<Rightarrow> transaction list" where
  "appended s s' = drop (length (transactions s)) (transactions s')"

definition user_keys :: "store \<Rightarrow> int set" where
  "user_keys s = user_id ` set (users s)"

text \<open>
  The ledger invariant: every transaction belongs to an existing user (the foreign key
  \<^verbatim>\<open>transactions.user_id\<close>), and the audit trail of every user equals the balance.
\<close>

definition ledger_ok :: "store \<Rightarrow> bool" where
  "ledger_ok s \<longleftrightarrow>
     tx_user_id ` set (transactions s) \<subseteq> user_keys s \<and>
     (\<forall>u \<in> set (users s). tx_sum s (user_id u) = balance u)"

text \<open>
  One posting: the balance of the user with key \<open>k\<close> changes by \<open>a\<close> and exactly one
  transaction for \<open>k\<close> with amount \<open>a\<close> is appended.
\<close>

definition post :: "int \<Rightarrow> string \<Rightarrow> real \<Rightarrow> string \<Rightarrow> store \<Rightarrow> store" where
  "post k ty a d s =
     add_tx \<lparr>tx_user_id = k, tx_type = ty, amount = a, details = d\<rparr>
       (update_user k (\<lambda>v. v\<lparr>balance := balance v + a\<rparr>) s)"

text \<open>
  \<open>posts s s'\<close>: the store \<open>s'\<close> comes from \<open>s\<close> by postings to existing users and by steps
  that touch no balance and no transaction (an update of other columns of a user row, a
  change of purchase rows, a new user row with a fresh key and balance 0).
\<close>

inductive posts :: "store \<Rightarrow> store \<Rightarrow> bool" where
  nothing: "posts s s"
| posting: "posts s s1 \<Longrightarrow> k \<in> user_keys s1 \<Longrightarrow> posts s (post k ty a d s1)"
| touching: "posts s s1 \<Longrightarrow> (\<And>v. balance (f v) = balance v) \<Longrightarrow>
     (\<And>v. user_id (f v) = user_id v) \<Longrightarrow> posts s (update_user k f s1)"
| rows: "posts s s1 \<Longrightarrow> posts s (s1\<lparr>purchases := ps\<rparr>)"
| new_user: "posts s s1 \<Longrightarrow> balance r = 0 \<Longrightarrow>
     user_id r = next_id (map user_id (users s1)) \<Longrightarrow> posts s (s1\<lparr>users := users s1 @ [r]\<rparr>)"

text \<open>The referrer bonus in the ledger: a transaction of type \<open>bonus\<close> with amount 1 (the
  daily bonus has amount 5).\<close>

definition is_referral_bonus :: "transaction \<Rightarrow> bool" where
  "is_referral_bonus t \<longleftrightarrow> tx_type t = ''bonus'' \<and> amount t = 1"

text \<open>How many referrer bonuses the request \<open>rq\<close> appended as a daily claim of the user
  \<open>uid\<close>.\<close>

definition payout_at :: "store \<Rightarrow> request \<Rightarrow> int \<Rightarrow> nat" where
  "payout_at s rq uid =
     (case rq of
        Daily_Claim k now \<Rightarrow>
          if k = uid then length (filter is_referral_bonus (appended s (fst (handle s rq))))
          else 0
      | _ \<Rightarrow> 0)"

text \<open>Whether the request \<open>rq\<close> cleared a \<open>referred_by\<close> that the user \<open>uid\<close> had (1 or 0).\<close>

definition clearing_at :: "store \<Rightarrow> request \<Rightarrow> int \<Rightarrow> nat" where
  "clearing_at s rq uid =
     (case (get_user s uid, get_user (fst (handle s rq)) uid) of
        (Some u, Some u') \<Rightarrow> if referred_by u \<noteq> None \<and> referred_by u' = None then 1 else 0
      | _ \<Rightarrow> 0)"

text \<open>The same two counts along a sequence of requests.\<close>

fun referral_payouts :: "store \<Rightarrow> request list \<Rightarrow> int \<Rightarrow> nat" where
  "referral_payouts s [] uid = 0"
| "referral_payouts s (rq # rqs) uid =
     payout_at s rq uid + referral_payouts (fst (handle s rq)) rqs uid"

fun referral_clearings :: "store \<Rightarrow> request list \<Rightarrow> int \<Rightarrow> nat" where
  "referral_clearings s [] uid = 0"
| "referral_clearings s (rq # rqs) uid =
     clearing_at s rq uid + referral_clearings (fst (handle s rq)) rqs uid"

text \<open>
  The balance invariant: the primary keys of the user rows are distinct and no balance is
  negative.
\<close>

definition balances_ok :: "store \<Rightarrow> bool" where
  "balances_ok s \<longleftrightarrow>
     distinct (map user_id (users s)) \<and> (\<forall>u \<in> set (users s). 0 \<le> balance u)"

section \<open>Basic facts about the session primitives\<close>

lemma users_add_tx [simp]: "users (add_tx t s) = users s"
  and transactions_add_tx [simp]: "transactions (add_tx t s) = transactions s @ [t]"
  and products_add_tx [simp]: "products (add_tx t s) = products s"
  and purchases_add_tx [simp]: "purchases (add_tx t s) = purchases s"
  by (simp_all add: add_tx_def)

lemma users_update_user [simp]:
    "users (update_user uid f s) = map (\<lambda>u. if user_id u = uid then f u else u) (users s)"
  and transactions_update_user [simp]: "transactions (update_user uid f s) = transactions s"
  and products_update_user [simp]: "products (update_user uid f s) = products s"
  and purchases_update_user [simp]: "purchases (update_user uid f s) = purchases s"
  by (simp_all add: update_user_def)

lemma get_user_add_tx [simp]: "get_user (add_tx t s) uid = get_user s uid"
  by (simp add: get_user_def)

lemma find_map_upd:
  assumes "\<And>u. user_id (f u) = user_id u"
  shows "find (\<lambda>u. user_id u = k) (map (\<lambda>u. if user_id u = uid then f u else u) us) =
         (if k = uid then map_option f (find (\<lambda>u. user_id u = k) us)
          else find (\<lambda>u. user_id u = k) us)"
  using assms by (induction us) auto

lemma get_user_update_user:
  assumes "\<And>u. user_id (f u) = user_id u"
  shows "get_user (update_user uid f s) k =
         (if k = uid then map_option f (get_user s k) else get_user s k)"
  using find_map_upd [OF assms] by (simp add: get_user_def)

lemma get_user_key: "get_user s uid = Some u \<Longrightarrow> user_id u = uid"
  by (auto simp: get_user_def find_Some_iff)

lemma get_user_mem: "get_user s uid = Some u \<Longrightarrow> u \<in> set (users s)"
  by (auto simp: get_user_def find_Some_iff)

lemma referrer_of_None:
  "referred_by u = Some c \<Longrightarrow> \<forall>r \<in> set (users s). referral_code r \<noteq> c \<Longrightarrow> referrer_of s u = None"
  by (auto simp: referrer_of_def find_None_iff)

text \<open>The key of a new row is not in the table.\<close>

lemma foldr_max_ge: "k \<in> set ks \<Longrightarrow> k \<le> foldr max ks (0::int)"
  by (induction ks) auto

lemma next_id_fresh: "next_id ks \<notin> set ks"
  using foldr_max_ge [of "next_id ks" ks] by (auto simp: next_id_def)

text \<open>A small database used by the examples below: the seeded products, one user who
  registered through a referral link whose code belongs to nobody, and one recharge.\<close>

lemma demo_store:
  "run (init_db empty_store)
     [Register ''alice'' ''pw'' ''AAAAAAAA'' (Some ''ZZZZZZZZ''), Recharge 1 100] =
   \<lparr>users = [\<lparr>user_id = 1, username = ''alice'', balance = 100,
               referral_code = ''AAAAAAAA'', referred_by = Some ''ZZZZZZZZ'',
               last_claim_at = None\<rparr>],
     transactions = [\<lparr>tx_user_id = 1, tx_type = ''recharge'', amount = 100,
                      details = ''Mobile recharge (demo credit)''\<rparr>],
     products = seed_products, purchases = []\<rparr>"
  by (simp add: init_db_def empty_store_def register_def next_id_def recharge_def
      get_user_def update_user_def add_tx_def)

section \<open>C3: a referral code that resolves to nobody\<close>

text \<open>
  C3 (as amended). In \<open>daily_claim\<close>, when the claiming user's \<open>referred_by\<close> is set but no
  user has that referral code, the claim succeeds, the referrer bonus is skipped without
  any message (the only transaction appended is the daily bonus of 5), and \<open>referred_by\<close>
  is left as it was: the assignment \<^verbatim>\<open>user.referred_by = None\<close> stands inside
  \<^verbatim>\<open>if referrer:\<close>. No other user row changes.
\<close>

theorem unresolved_referral_is_kept:
  assumes "get_user s uid = Some u" and "claim_wait u now = None"
    and "referred_by u = Some c" and "\<forall>r \<in> set (users s). referral_code r \<noteq> c"
  shows "snd (daily_claim s uid now) = Daily_Bonus_Claimed \<and>
         transactions (fst (daily_claim s uid now)) =
           transactions s @ [\<lparr>tx_user_id = uid, tx_type = ''bonus'', amount = 5,
                               details = ''Daily claim bonus''\<rparr>] \<and>
         get_user (fst (daily_claim s uid now)) uid =
           Some (u\<lparr>balance := balance u + 5, last_claim_at := Some now\<rparr>) \<and>
         map_option referred_by (get_user (fst (daily_claim s uid now)) uid) = Some (Some c) \<and>
         (\<forall>k. k \<noteq> uid \<longrightarrow> get_user (fst (daily_claim s uid now)) k = get_user s k)"
  using assms referrer_of_None [OF assms(3,4)] get_user_key [OF assms(1)]
  by (simp add: daily_claim_def Let_def get_user_update_user)

text \<open>The theorem at the example database: alice claims at time 7.\<close>

theorem unresolved_referral_is_kept_witness:
  "claim_wait \<lparr>user_id = 1, username = ''alice'', balance = 100,
               referral_code = ''AAAAAAAA'', referred_by = Some ''ZZZZZZZZ'',
               last_claim_at = None\<rparr> 7 = None \<and>
   map_option referred_by
     (get_user (fst (daily_claim
        (run (init_db empty_store)
           [Register ''alice'' ''pw'' ''AAAAAAAA'' (Some ''ZZZZZZZZ''), Recharge 1 100]) 1 7)) 1) =
     Some (Some ''ZZZZZZZZ'') \<and>
   map_option balance
     (get_user (fst (daily_claim
        (run (init_db empty_store)
           [Register ''alice'' ''pw'' ''AAAAAAAA'' (Some ''ZZZZZZZZ''), Recharge 1 100]) 1 7)) 1) =
     Some 105"
proof -
  let ?u = "\<lparr>user_id = 1, username = ''alice'', balance = 100,
               referral_code = ''AAAAAAAA'', referred_by = Some ''ZZZZZZZZ'',
               last_claim_at = None\<rparr>"
  let ?s = "run (init_db empty_store)
           [Register ''alice'' ''pw'' ''AAAAAAAA'' (Some ''ZZZZZZZZ''), Recharge 1 100]"
  have g: "get_user ?s 1 = Some ?u"
    unfolding demo_store by (simp add: get_user_def)
  have w: "claim_wait ?u 7 = None"
    by (simp add: claim_wait_def)
  have r: "referred_by ?u = Some ''ZZZZZZZZ''"
    by simp
  have n: "\<forall>r \<in> set (users ?s). referral_code r \<noteq> ''ZZZZZZZZ''"
    unfolding demo_store by simp
  from unresolved_referral_is_kept [OF g w r n] w show ?thesis
    by simp
qed

text \<open>
  C3 as the specification states it fails. carol registers with the referral code
  \<open>NOSUCH01\<close>, which nobody has, and claims at time 0: the claim succeeds and her
  \<open>referred_by\<close> is still \<open>NOSUCH01\<close>, not cleared. When a later registration draws that
  code and carol claims again 24 hours later, the referral fires: the third transaction is
  the referrer's bonus.
\<close>

theorem unresolved_referral_counterexample:
  "snd (daily_claim
      (run (init_db empty_store) [Register ''carol'' ''pw'' ''CCCCCCCC'' (Some ''NOSUCH01'')]) 1 0)
     = Daily_Bonus_Claimed \<and>
   map_option referred_by (get_user
      (run (init_db empty_store)
         [Register ''carol'' ''pw'' ''CCCCCCCC'' (Some ''NOSUCH01''), Daily_Claim 1 0]) 1)
     = Some (Some ''NOSUCH01'') \<and>
   transactions
      (run (init_db empty_store)
         [Register ''carol'' ''pw'' ''CCCCCCCC'' (Some ''NOSUCH01''), Daily_Claim 1 0,
          Register ''dave'' ''pw'' ''NOSUCH01'' None, Daily_Claim 1 86400000000])
     = [\<lparr>tx_user_id = 1, tx_type = ''bonus'', amount = 5, details = ''Daily claim bonus''\<rparr>,
        \<lparr>tx_user_id = 1, tx_type = ''bonus'', amount = 5, details = ''Daily claim bonus''\<rparr>,
        \<lparr>tx_user_id = 2, tx_type = ''bonus'', amount = 1,
          details = ''Referral bonus from carol''\<rparr>]"
  by (simp add: init_db_def empty_store_def register_def next_id_def daily_claim_def
      get_user_def update_user_def add_tx_def claim_wait_def referrer_of_def hours24_def)

section \<open>C7: the debit of topup\<close>

text \<open>
  C7 (as amended). For a logged-in user, \<open>topup\<close> fails whenever the amount is not
  positive or exceeds the balance, in both cases with the one answer ``Insufficient balance
  or invalid amount.'', and then the database (balance and transaction history included) is
  unchanged. Otherwise it succeeds: the amount is subtracted from the user's balance, one
  transaction of type \<open>topup\<close> whose stored amount is the negated amount is appended, and
  nothing else changes.
\<close>

theorem topup_debit:
  assumes "get_user s uid = Some u"
  shows "(amt \<le> 0 \<or> balance u < amt \<longrightarrow> topup s uid amt = (s, Insufficient_Or_Invalid)) \<and>
         (0 < amt \<and> amt \<le> balance u \<longrightarrow>
            snd (topup s uid amt) = Topup_Successful amt \<and>
            get_user (fst (topup s uid amt)) uid = Some (u\<lparr>balance := balance u - amt\<rparr>) \<and>
            transactions (fst (topup s uid amt)) =
              transactions s @ [\<lparr>tx_user_id = uid, tx_type = ''topup'', amount = - amt,
                                  details = ''Diamond top-up (demo spend)''\<rparr>] \<and>
            (\<forall>k. k \<noteq> uid \<longrightarrow> get_user (fst (topup s uid amt)) k = get_user s k) \<and>
            products (fst (topup s uid amt)) = products s \<and>
            purchases (fst (topup s uid amt)) = purchases s)"
  using assms get_user_key [OF assms]
  by (auto simp: topup_def get_user_update_user)

text \<open>The theorem at the example database: a top-up of 250 against a balance of 100 is
  refused and changes nothing, a top-up of 30 leaves 70 and appends the amount -30.\<close>

theorem topup_debit_witness:
  "topup (run (init_db empty_store)
            [Register ''alice'' ''pw'' ''AAAAAAAA'' (Some ''ZZZZZZZZ''), Recharge 1 100]) 1 250 =
     (run (init_db empty_store)
            [Register ''alice'' ''pw'' ''AAAAAAAA'' (Some ''ZZZZZZZZ''), Recharge 1 100],
      Insufficient_Or_Invalid) \<and>
   map_option balance (get_user (fst (topup (run (init_db empty_store)
            [Register ''alice'' ''pw'' ''AAAAAAAA'' (Some ''ZZZZZZZZ''), Recharge 1 100]) 1 30)) 1) =
     Some 70 \<and>
   map amount (transactions (fst (topup (run (init_db empty_store)
            [Register ''alice'' ''pw'' ''AAAAAAAA'' (Some ''ZZZZZZZZ''), Recharge 1 100]) 1 30))) =
     [100, - 30]"
proof -
  let ?u = "\<lparr>user_id = 1, username = ''alice'', balance = 100,
               referral_code = ''AAAAAAAA'', referred_by = Some ''ZZZZZZZZ'',
               last_claim_at = None\<rparr>"
  let ?s = "run (init_db empty_store)
           [Register ''alice'' ''pw'' ''AAAAAAAA'' (Some ''ZZZZZZZZ''), Recharge 1 100]"
  have g: "get_user ?s 1 = Some ?u"
    unfolding demo_store by (simp add: get_user_def)
  from topup_debit [OF g, of 250] topup_debit [OF g, of 30] show ?thesis
    unfolding demo_store by simp
qed

text \<open>
  C7 as the specification states it names two kinds of failure, \<open>InsufficientFunds\<close> for an
  amount above the balance and \<open>InvalidAmount\<close> for an amount that is not positive. The
  route has one test and one message: with a balance of 100, the answer to an amount of 250
  and the answer to an amount of 0 are the same.
\<close>

theorem topup_failure_kinds_counterexample:
  "snd (topup (run (init_db empty_store)
            [Register ''erin'' ''pw'' ''EEEEEEEE'' None, Recharge 1 100]) 1 250) =
     Insufficient_Or_Invalid \<and>
   snd (topup (run (init_db empty_store)
            [Register ''erin'' ''pw'' ''EEEEEEEE'' None, Recharge 1 100]) 1 0) =
     Insufficient_Or_Invalid"
  by (simp add: init_db_def empty_store_def register_def next_id_def recharge_def topup_def
      get_user_def update_user_def add_tx_def)

section \<open>What a request does to a user row\<close>

text \<open>
  No request deletes a user or changes a key, a user name or a referral code. The stamp
  \<open>last_claim_at\<close> is written only by a granted daily claim of that user, and
  \<open>referred_by\<close> is only ever cleared.
\<close>

lemma find_append_first:
  "find P (xs @ ys) = (case find P xs of None \<Rightarrow> find P ys | Some x \<Rightarrow> Some x)"
  by (induction xs) auto

lemma claim_wait_Some_iff:
  "(claim_wait u now = Some r) = (\<exists>lc. last_claim_at u = Some lc \<and> now - lc < hours24 \<and> r = hours24 - (now - lc))"
  by (auto simp: claim_wait_def split: option.splits)

lemma claim_wait_None_iff:
  "(claim_wait u now = None) = (\<forall>lc. last_claim_at u = Some lc \<longrightarrow> hours24 \<le> now - lc)"
  by (auto simp: claim_wait_def split: option.splits)

lemma register_user_frame:
  assumes "get_user s uid = Some u"
  shows "get_user (fst (register s name password code ref)) uid = Some u"
  using assms by (simp add: register_def get_user_def find_append_first)

lemma get_user_purchases_update [simp]: "get_user (s\<lparr>purchases := ps\<rparr>) k = get_user s k"
  by (simp add: get_user_def)

lemma handle_user_frame:
  assumes "get_user s uid = Some u"
  shows "\<exists>u'. get_user (fst (handle s rq)) uid = Some u' \<and>
           username u' = username u \<and> referral_code u' = referral_code u \<and>
           (last_claim_at u' = last_claim_at u \<or>
            (\<exists>now. rq = Daily_Claim uid now \<and> claim_wait u now = None \<and>
                   last_claim_at u' = Some now)) \<and>
           (referred_by u' = referred_by u \<or> referred_by u' = None)"
proof (cases rq)
  case (Register name password code ref)
  then show ?thesis using assms by (simp add: register_user_frame)
next
  case (Recharge k amt)
  then show ?thesis using assms
    by (auto simp: recharge_def get_user_update_user split: option.splits)
next
  case (Topup k amt)
  then show ?thesis using assms
    by (auto simp: topup_def get_user_update_user split: option.splits)
next
  case (Dollar k action amt)
  then show ?thesis using assms
    by (auto simp: dollar_def get_user_update_user split: option.splits)
next
  case (Daily_Claim k now)
  then show ?thesis using assms
    by (auto simp: daily_claim_def Let_def get_user_update_user split: option.splits)
next
  case (Buy k sl t1 t2)
  then show ?thesis using assms
    by (auto simp: buy_def Let_def get_user_update_user split: option.splits)
next
  case (Mining k now)
  then show ?thesis using assms
    by (auto simp: mining_def split: option.splits)
next
  case (Mining_Claim k)
  then show ?thesis using assms
    by (auto simp: mining_claim_def Let_def get_user_update_user
        split: option.splits prod.splits)
qed

lemma last_claim_monotone:
  assumes "get_user s uid = Some u" and "last_claim_at u = Some lc" and "t \<le> lc"
  shows "\<exists>u' lc'. get_user (run s rqs) uid = Some u' \<and> last_claim_at u' = Some lc' \<and> t \<le> lc'"
  using assms
proof (induction rqs arbitrary: s u lc)
  case Nil
  then show ?case by simp
next
  case (Cons rq rqs)
  from handle_user_frame [OF Cons.prems(1), of rq]
  obtain u' where u': "get_user (fst (handle s rq)) uid = Some u'"
    and lc': "last_claim_at u' = last_claim_at u \<or>
              (\<exists>now. rq = Daily_Claim uid now \<and> claim_wait u now = None \<and>
                     last_claim_at u' = Some now)"
    by blast
  have "\<exists>l. last_claim_at u' = Some l \<and> t \<le> l"
    using lc' Cons.prems(2,3) by (auto simp: claim_wait_None_iff hours24_def)
  then obtain l where "last_claim_at u' = Some l" and "t \<le> l" by blast
  from Cons.IH [OF u' this] show ?case by simp
qed

section \<open>C4: the 24 hour guard of the daily claim\<close>

lemma daily_claim_rejects:
  assumes "get_user s uid = Some u" and "last_claim_at u = Some lc" and "now - lc < hours24"
  shows "daily_claim s uid now = (s, Next_Claim_In (hours24 - (now - lc)))"
  using assms by (simp add: daily_claim_def claim_wait_def)

lemma daily_claim_grants:
  assumes "get_user s uid = Some u" and "claim_wait u now = None"
  shows "snd (daily_claim s uid now) = Daily_Bonus_Claimed"
    and "map_option last_claim_at (get_user (fst (daily_claim s uid now)) uid) = Some (Some now)"
    and "transactions (fst (daily_claim s uid now)) =
           transactions s @
           \<lparr>tx_user_id = uid, tx_type = ''bonus'', amount = 5, details = ''Daily claim bonus''\<rparr> #
           (case (case referred_by u of
                    None \<Rightarrow> None
                  | Some c \<Rightarrow> if c = [] then None
                              else find (\<lambda>r. referral_code r = c) (users s)) of
              None \<Rightarrow> []
            | Some r \<Rightarrow> [\<lparr>tx_user_id = user_id r, tx_type = ''bonus'', amount = 1,
                           details = ''Referral bonus from '' @ username u\<rparr>])"
    and "map_option balance (get_user (fst (daily_claim s uid now)) uid) =
           Some (case (case referred_by u of
                         None \<Rightarrow> None
                       | Some c \<Rightarrow> if c = [] then None
                                   else find (\<lambda>r. referral_code r = c) (users s)) of
                   None \<Rightarrow> balance u + 5
                 | Some r \<Rightarrow> if user_id r = uid then balance u + 6 else balance u + 5)"
proof -
  note k = get_user_key [OF assms(1)]
  show "snd (daily_claim s uid now) = Daily_Bonus_Claimed"
    using assms by (simp add: daily_claim_def Let_def split: option.splits)
  show "map_option last_claim_at (get_user (fst (daily_claim s uid now)) uid) = Some (Some now)"
    using assms k
    by (auto simp: daily_claim_def Let_def get_user_update_user split: option.splits)
  show "transactions (fst (daily_claim s uid now)) =
           transactions s @
           \<lparr>tx_user_id = uid, tx_type = ''bonus'', amount = 5, details = ''Daily claim bonus''\<rparr> #
           (case (case referred_by u of
                    None \<Rightarrow> None
                  | Some c \<Rightarrow> if c = [] then None
                              else find (\<lambda>r. referral_code r = c) (users s)) of
              None \<Rightarrow> []
            | Some r \<Rightarrow> [\<lparr>tx_user_id = user_id r, tx_type = ''bonus'', amount = 1,
                           details = ''Referral bonus from '' @ username u\<rparr>])"
    using assms k
    by (simp add: daily_claim_def referrer_of_def Let_def split: option.splits)
  show "map_option balance (get_user (fst (daily_claim s uid now)) uid) =
           Some (case (case referred_by u of
                         None \<Rightarrow> None
                       | Some c \<Rightarrow> if c = [] then None
                                   else find (\<lambda>r. referral_code r = c) (users s)) of
                   None \<Rightarrow> balance u + 5
                 | Some r \<Rightarrow> if user_id r = uid then balance u + 6 else balance u + 5)"
    using assms k
    by (simp add: daily_claim_def referrer_of_def Let_def get_user_update_user
        split: option.splits)
qed

lemma daily_claim_response:
  assumes "get_user s uid = Some u"
  shows "snd (daily_claim s uid now) =
          (case claim_wait u now of None \<Rightarrow> Daily_Bonus_Claimed | Some r \<Rightarrow> Next_Claim_In r)"
  using assms by (auto simp: daily_claim_def Let_def split: option.splits)

lemma claims_a_day_apart:
  assumes "get_user s uid = Some u"
    and "snd (daily_claim s uid now) = Daily_Bonus_Claimed"
    and "snd (daily_claim (run (fst (daily_claim s uid now)) rqs) uid now2) = Daily_Bonus_Claimed"
  shows "hours24 \<le> now2 - now"
proof -
  have w: "claim_wait u now = None"
    using assms(2) daily_claim_response [OF assms(1), of now] by (simp split: option.splits)
  from daily_claim_grants(2) [OF assms(1) w]
  obtain u1 where u1: "get_user (fst (daily_claim s uid now)) uid = Some u1"
    and l1: "last_claim_at u1 = Some now" by auto
  from last_claim_monotone [OF u1 l1 order_refl, of rqs]
  obtain u2 lc where u2: "get_user (run (fst (daily_claim s uid now)) rqs) uid = Some u2"
    and l2: "last_claim_at u2 = Some lc" and le: "now \<le> lc" by blast
  have "claim_wait u2 now2 = None"
    using assms(3) daily_claim_response [OF u2, of now2] by (simp split: option.splits)
  with l2 have "hours24 \<le> now2 - lc" by (simp add: claim_wait_None_iff)
  with le show ?thesis by simp
qed

text \<open>
  C4 (as amended). For a logged-in user, \<open>daily_claim\<close> answers ``Next claim available in
  ...'' (\<open>Next_Claim_In\<close>, carrying 24 hours minus the elapsed time) if and only if
  \<open>last_claim_at\<close> is set and \<open>now - last_claim_at\<close> is less than 24 hours, and then the
  database is unchanged. Otherwise (no earlier claim, or 24 hours or more elapsed, the
  bound included) the claim is granted and \<open>last_claim_at\<close> becomes \<open>now\<close>. The
  transactions appended are exactly the daily bonus of 5 with type \<open>bonus\<close> for that user
  and, when \<open>referred_by\<close> is a non-empty code that some user has, the referral bonus of 1
  for the first user with that code. The claiming user's balance grows by exactly 5,
  except when that referrer is the claiming user's own row: then the referral bonus is
  credited to the same balance in the same request and it grows by 6. Whatever requests
  run in between, two granted claims of the same user are at least 24 hours apart.
\<close>

theorem daily_claim_every_24_hours:
  assumes "get_user s uid = Some u"
  shows "((\<exists>r. snd (daily_claim s uid now) = Next_Claim_In r) \<longleftrightarrow>
            (\<exists>lc. last_claim_at u = Some lc \<and> now - lc < hours24)) \<and>
         (\<forall>lc. last_claim_at u = Some lc \<and> now - lc < hours24 \<longrightarrow>
            daily_claim s uid now = (s, Next_Claim_In (hours24 - (now - lc)))) \<and>
         (\<not> (\<exists>lc. last_claim_at u = Some lc \<and> now - lc < hours24) \<longrightarrow>
            snd (daily_claim s uid now) = Daily_Bonus_Claimed \<and>
            map_option last_claim_at (get_user (fst (daily_claim s uid now)) uid) =
              Some (Some now) \<and>
            transactions (fst (daily_claim s uid now)) =
              transactions s @
              \<lparr>tx_user_id = uid, tx_type = ''bonus'', amount = 5,
                details = ''Daily claim bonus''\<rparr> #
              (case (case referred_by u of
                       None \<Rightarrow> None
                     | Some c \<Rightarrow> if c = [] then None
                                 else find (\<lambda>r. referral_code r = c) (users s)) of
                 None \<Rightarrow> []
               | Some r \<Rightarrow> [\<lparr>tx_user_id = user_id r, tx_type = ''bonus'', amount = 1,
                              details = ''Referral bonus from '' @ username u\<rparr>]) \<and>
            map_option balance (get_user (fst (daily_claim s uid now)) uid) =
              Some (case (case referred_by u of
                            None \<Rightarrow> None
                          | Some c \<Rightarrow> if c = [] then None
                                      else find (\<lambda>r. referral_code r = c) (users s)) of
                      None \<Rightarrow> balance u + 5
                    | Some r \<Rightarrow> if user_id r = uid then balance u + 6 else balance u + 5)) \<and>
         (\<forall>rqs now2.
            snd (daily_claim s uid now) = Daily_Bonus_Claimed \<and>
            snd (daily_claim (run (fst (daily_claim s uid now)) rqs) uid now2) =
              Daily_Bonus_Claimed \<longrightarrow>
            hours24 \<le> now2 - now)"
proof -
  have a: "(\<exists>r. snd (daily_claim s uid now) = Next_Claim_In r) \<longleftrightarrow>
            (\<exists>lc. last_claim_at u = Some lc \<and> now - lc < hours24)"
    using daily_claim_response [OF assms, of now]
    by (auto simp: claim_wait_def split: option.splits if_splits)
  have b: "\<forall>lc. last_claim_at u = Some lc \<and> now - lc < hours24 \<longrightarrow>
            daily_claim s uid now = (s, Next_Claim_In (hours24 - (now - lc)))"
    using daily_claim_rejects [OF assms] by blast
  have w: "\<not> (\<exists>lc. last_claim_at u = Some lc \<and> now - lc < hours24) \<Longrightarrow> claim_wait u now = None"
    by (auto simp: claim_wait_None_iff)
  have c: "\<not> (\<exists>lc. last_claim_at u = Some lc \<and> now - lc < hours24) \<longrightarrow>
            snd (daily_claim s uid now) = Daily_Bonus_Claimed \<and>
            map_option last_claim_at (get_user (fst (daily_claim s uid now)) uid) =
              Some (Some now) \<and>
            transactions (fst (daily_claim s uid now)) =
              transactions s @
              \<lparr>tx_user_id = uid, tx_type = ''bonus'', amount = 5,
                details = ''Daily claim bonus''\<rparr> #
              (case (case referred_by u of
                       None \<Rightarrow> None
                     | Some c \<Rightarrow> if c = [] then None
                                 else find (\<lambda>r. referral_code r = c) (users s)) of
                 None \<Rightarrow> []
               | Some r \<Rightarrow> [\<lparr>tx_user_id = user_id r, tx_type = ''bonus'', amount = 1,
                              details = ''Referral bonus from '' @ username u\<rparr>]) \<and>
            map_option balance (get_user (fst (daily_claim s uid now)) uid) =
              Some (case (case referred_by u of
                            None \<Rightarrow> None
                          | Some c \<Rightarrow> if c = [] then None
                                      else find (\<lambda>r. referral_code r = c) (users s)) of
                      None \<Rightarrow> balance u + 5
                    | Some r \<Rightarrow> if user_id r = uid then balance u + 6 else balance u + 5)"
    using daily_claim_grants [OF assms w] by blast
  have d: "\<forall>rqs now2.
            snd (daily_claim s uid now) = Daily_Bonus_Claimed \<and>
            snd (daily_claim (run (fst (daily_claim s uid now)) rqs) uid now2) =
              Daily_Bonus_Claimed \<longrightarrow>
            hours24 \<le> now2 - now"
    using claims_a_day_apart [OF assms] by blast
  from a b c d show ?thesis by blast
qed

text \<open>
  The theorem at the example database (alice's referral code belongs to nobody): a first
  claim at time 0 is granted and raises the balance from 100 to 105 with one transaction,
  a claim one microsecond before 24 hours have passed is refused with 1 microsecond
  remaining and changes nothing, a claim at exactly 24 hours is granted.
\<close>

theorem daily_claim_every_24_hours_witness:
  "snd (daily_claim (run (init_db empty_store)
          [Register ''alice'' ''pw'' ''AAAAAAAA'' (Some ''ZZZZZZZZ''), Recharge 1 100]) 1 0) =
     Daily_Bonus_Claimed \<and>
   map_option balance (get_user (fst (daily_claim (run (init_db empty_store)
          [Register ''alice'' ''pw'' ''AAAAAAAA'' (Some ''ZZZZZZZZ''), Recharge 1 100]) 1 0)) 1) =
     Some 105 \<and>
   map amount (transactions (fst (daily_claim (run (init_db empty_store)
          [Register ''alice'' ''pw'' ''AAAAAAAA'' (Some ''ZZZZZZZZ''), Recharge 1 100]) 1 0))) =
     [100, 5] \<and>
   daily_claim (run (init_db empty_store)
          [Register ''alice'' ''pw'' ''AAAAAAAA'' (Some ''ZZZZZZZZ''), Recharge 1 100,
           Daily_Claim 1 0]) 1 86399999999 =
     (run (init_db empty_store)
          [Register ''alice'' ''pw'' ''AAAAAAAA'' (Some ''ZZZZZZZZ''), Recharge 1 100,
           Daily_Claim 1 0], Next_Claim_In 1) \<and>
   snd (daily_claim (run (init_db empty_store)
          [Register ''alice'' ''pw'' ''AAAAAAAA'' (Some ''ZZZZZZZZ''), Recharge 1 100,
           Daily_Claim 1 0]) 1 86400000000) = Daily_Bonus_Claimed"
proof -
  let ?u = "\<lparr>user_id = 1, username = ''alice'', balance = 100,
               referral_code = ''AAAAAAAA'', referred_by = Some ''ZZZZZZZZ'',
               last_claim_at = None\<rparr>"
  define s0 where "s0 = run (init_db empty_store)
           [Register ''alice'' ''pw'' ''AAAAAAAA'' (Some ''ZZZZZZZZ''), Recharge 1 100]"
  define s1 where "s1 = fst (daily_claim s0 1 0)"
  have store: "s0 =
     \<lparr>users = [?u],
       transactions = [\<lparr>tx_user_id = 1, tx_type = ''recharge'', amount = 100,
                        details = ''Mobile recharge (demo credit)''\<rparr>],
       products = seed_products, purchases = []\<rparr>"
    unfolding s0_def by (rule demo_store)
  have g: "get_user s0 1 = Some ?u"
    unfolding store by (simp add: get_user_def)
  have us: "users s0 = [?u]" and tx: "map amount (transactions s0) = [100]"
    unfolding store by simp_all
  have g1: "get_user s1 1 = Some (?u\<lparr>balance := 105, last_claim_at := Some 0\<rparr>)"
    unfolding s1_def store
    by (simp add: daily_claim_def get_user_def claim_wait_def referrer_of_def update_user_def
        add_tx_def)
  have first: "snd (daily_claim s0 1 0) = Daily_Bonus_Claimed \<and>
      map_option balance (get_user (fst (daily_claim s0 1 0)) 1) = Some 105 \<and>
      map amount (transactions (fst (daily_claim s0 1 0))) = [100, 5]"
    using daily_claim_every_24_hours [OF g, of 0] tx by (simp add: us)
  have later: "daily_claim s1 1 86399999999 = (s1, Next_Claim_In 1) \<and>
      snd (daily_claim s1 1 86400000000) = Daily_Bonus_Claimed"
    using daily_claim_every_24_hours [OF g1, of 86399999999]
      daily_claim_every_24_hours [OF g1, of 86400000000]
    by (simp add: hours24_def)
  have e: "run (init_db empty_store)
           [Register ''alice'' ''pw'' ''AAAAAAAA'' (Some ''ZZZZZZZZ''), Recharge 1 100,
            Daily_Claim 1 0] = s1"
    unfolding s1_def s0_def by simp
  show ?thesis
    unfolding e unfolding s0_def [symmetric] using first later by (simp add: s1_def)
qed

text \<open>
  C4 as the specification states it has every granted claim credit exactly 5.0. A user
  whose drawn referral code is the code of the link they registered through is their own
  referrer: one granted claim appends two transactions for that user, 5 and 1, and the
  balance goes from 0 to 6.
\<close>

theorem daily_claim_self_referral_counterexample:
  "snd (daily_claim (run (init_db empty_store)
          [Register ''ivy'' ''pw'' ''SELFSELF'' (Some ''SELFSELF'')]) 1 0) =
     Daily_Bonus_Claimed \<and>
   users (run (init_db empty_store)
          [Register ''ivy'' ''pw'' ''SELFSELF'' (Some ''SELFSELF''), Daily_Claim 1 0]) =
     [\<lparr>user_id = 1, username = ''ivy'', balance = 6, referral_code = ''SELFSELF'',
       referred_by = None, last_claim_at = Some 0\<rparr>] \<and>
   transactions (run (init_db empty_store)
          [Register ''ivy'' ''pw'' ''SELFSELF'' (Some ''SELFSELF''), Daily_Claim 1 0]) =
     [\<lparr>tx_user_id = 1, tx_type = ''bonus'', amount = 5, details = ''Daily claim bonus''\<rparr>,
      \<lparr>tx_user_id = 1, tx_type = ''bonus'', amount = 1,
        details = ''Referral bonus from ivy''\<rparr>]"
  by (simp add: init_db_def empty_store_def register_def next_id_def daily_claim_def
      get_user_def update_user_def add_tx_def claim_wait_def referrer_of_def)

section \<open>C5: accrual over elapsed time\<close>

lemma accrue_idempotent: "accrue ps t p = Some p' \<Longrightarrow> accrue ps t p' = Some p'"
  by (auto simp: accrue_def last_accrual_def Let_def split: option.splits if_splits)

lemma accrue_no_elapsed: "last_accrual p = Some t0 \<Longrightarrow> t \<le> t0 \<Longrightarrow> accrue ps t p = Some p"
  by (simp add: accrue_def Let_def)

lemma accrue_then_accrue:
  assumes "last_accrual p = Some t0"
    and "find (\<lambda>q. product_id q = purchase_product_id p) ps = Some q"
    and "t0 \<le> t1" and "t1 < t2"
  shows "\<exists>p1 p2. accrue ps t1 p = Some p1 \<and> accrue ps t2 p1 = Some p2 \<and>
           accrued p2 = accrued p1 + hourly_rate q * (real_of_int (t2 - t1) / 1000000 / 3600) \<and>
           last_mined_at p2 = Some t2"
proof (cases "t0 < t1")
  case True
  then have "accrue ps t1 p = Some (p\<lparr>accrued := accrued p +
       hourly_rate q * (real_of_int (t1 - t0) / 1000000 / 3600), last_mined_at := Some t1\<rparr>)"
    using assms(1,2) by (simp add: accrue_def Let_def)
  then show ?thesis
    using assms(2,4) by (simp add: accrue_def last_accrual_def Let_def)
next
  case False
  with assms(3) have "t1 = t0" by simp
  then have "accrue ps t1 p = Some p"
    using assms(1) by (simp add: accrue_def Let_def)
  then show ?thesis
    using assms(1,2,4) \<open>t1 = t0\<close> by (simp add: accrue_def Let_def)
qed

text \<open>
  C5 (as amended). For a purchase whose product exists and whose last accrual stamp
  (\<open>last_mined_at\<close>, else \<open>purchased_at\<close>) is not later than \<open>t1\<close>, and for \<open>t1 < t2\<close>:
  accruing at \<open>t1\<close> and then at \<open>t2\<close> both succeed, the second call increases \<open>accrued\<close> by
  exactly the hourly rate times the hours from \<open>t1\<close> to \<open>t2\<close> and sets \<open>last_mined_at\<close> to
  \<open>t2\<close>. For every purchase, accruing a second time at the same instant changes nothing,
  and accruing at an instant that is not after the last accrual stamp changes nothing.
\<close>

theorem accrue_twice:
  "(last_accrual p = Some t0 \<and>
    find (\<lambda>q. product_id q = purchase_product_id p) ps = Some q \<and> t0 \<le> t1 \<and> t1 < t2 \<longrightarrow>
      (\<exists>p1 p2. accrue ps t1 p = Some p1 \<and> accrue ps t2 p1 = Some p2 \<and>
         accrued p2 = accrued p1 + hourly_rate q * (real_of_int (t2 - t1) / 1000000 / 3600) \<and>
         last_mined_at p2 = Some t2)) \<and>
   (accrue ps t p = Some p' \<longrightarrow> accrue ps t p' = Some p') \<and>
   (last_accrual p = Some t0 \<and> t \<le> t0 \<longrightarrow> accrue ps t p = Some p)"
  using accrue_then_accrue [of p t0 ps q t1 t2] accrue_idempotent [of ps t p p']
    accrue_no_elapsed [of p t0 t ps]
  by blast

text \<open>
  The theorem at the example of the specification: a Starter Rig (0.02 per hour) bought at
  time 0, accrued after 60 minutes and again after 150 minutes. The second call adds
  0.02 times 1.5 hours, which brings the accrued amount to 0.05; a third call at the same
  instant changes nothing.
\<close>

theorem accrue_twice_witness:
  "accrue seed_products 3600000000
     \<lparr>purchase_id = 1, purchase_user_id = 1, purchase_product_id = 1,
      purchased_at = Some 0, last_mined_at = Some 0, accrued = 0\<rparr> =
     Some \<lparr>purchase_id = 1, purchase_user_id = 1, purchase_product_id = 1,
      purchased_at = Some 0, last_mined_at = Some 3600000000, accrued = 2 / 100\<rparr> \<and>
   accrue seed_products 9000000000
     \<lparr>purchase_id = 1, purchase_user_id = 1, purchase_product_id = 1,
      purchased_at = Some 0, last_mined_at = Some 3600000000, accrued = 2 / 100\<rparr> =
     Some \<lparr>purchase_id = 1, purchase_user_id = 1, purchase_product_id = 1,
      purchased_at = Some 0, last_mined_at = Some 9000000000, accrued = 5 / 100\<rparr> \<and>
   accrue seed_products 9000000000
     \<lparr>purchase_id = 1, purchase_user_id = 1, purchase_product_id = 1,
      purchased_at = Some 0, last_mined_at = Some 9000000000, accrued = 5 / 100\<rparr> =
     Some \<lparr>purchase_id = 1, purchase_user_id = 1, purchase_product_id = 1,
      purchased_at = Some 0, last_mined_at = Some 9000000000, accrued = 5 / 100\<rparr>"
proof -
  let ?p = "\<lparr>purchase_id = 1, purchase_user_id = 1, purchase_product_id = 1,
      purchased_at = Some 0, last_mined_at = Some 0, accrued = 0\<rparr>"
  let ?q = "\<lparr>product_id = 1, product_name = ''Starter Rig'', slug = ''starter-rig'',
      price = 100, hourly_rate = 2 / 100, active = True\<rparr>"
  have a: "last_accrual ?p = Some 0"
    by (simp add: last_accrual_def)
  have f: "find (\<lambda>q. product_id q = purchase_product_id ?p) seed_products = Some ?q"
    by (simp add: seed_products_def)
  have e: "accrue seed_products 3600000000 ?p =
             Some (?p\<lparr>last_mined_at := Some 3600000000, accrued := 2 / 100\<rparr>)"
    by (simp add: accrue_def last_accrual_def seed_products_def Let_def)
  from accrue_twice [where p = ?p and ?t0.0 = 0 and ps = seed_products and q = ?q
      and ?t1.0 = 3600000000 and ?t2.0 = 9000000000 and t = 9000000000] a f e
  show ?thesis
    by (simp add: accrue_def last_accrual_def seed_products_def Let_def)
qed

text \<open>
  C5 as the specification states it, for every purchase and every \<open>t1 < t2\<close>, fails when
  the clock reads earlier than the last accrual stamp. A purchase stamped at 10 hours is
  accrued at 2 seconds and at 1 second before that stamp: both calls are the no-op of
  \<^verbatim>\<open>if hrs > 0\<close>, so \<open>accrued\<close> does not grow by the rate times the second between the two
  calls, and \<open>last_mined_at\<close> stays at the stamp instead of moving to \<open>t2\<close>. The last
  conjunct is the same run through the routes.
\<close>

theorem accrue_twice_counterexample:
  "accrue seed_products 35998000000
     \<lparr>purchase_id = 1, purchase_user_id = 1, purchase_product_id = 1,
      purchased_at = Some 36000000000, last_mined_at = Some 36000000000, accrued = 0\<rparr> =
     Some \<lparr>purchase_id = 1, purchase_user_id = 1, purchase_product_id = 1,
      purchased_at = Some 36000000000, last_mined_at = Some 36000000000, accrued = 0\<rparr> \<and>
   accrue seed_products 35999000000
     \<lparr>purchase_id = 1, purchase_user_id = 1, purchase_product_id = 1,
      purchased_at = Some 36000000000, last_mined_at = Some 36000000000, accrued = 0\<rparr> =
     Some \<lparr>purchase_id = 1, purchase_user_id = 1, purchase_product_id = 1,
      purchased_at = Some 36000000000, last_mined_at = Some 36000000000, accrued = 0\<rparr> \<and>
   (0::real) \<noteq> 0 + 2 / 100 * (real_of_int (35999000000 - 35998000000) / 1000000 / 3600) \<and>
   purchases (run (init_db empty_store)
       [Register ''frank'' ''pw'' ''FFFFFFFF'' None, Recharge 1 100,
        Buy 1 ''starter-rig'' 36000000000 36000000000,
        Mining 1 35998000000, Mining 1 35999000000]) =
     [\<lparr>purchase_id = 1, purchase_user_id = 1, purchase_product_id = 1,
       purchased_at = Some 36000000000, last_mined_at = Some 36000000000, accrued = 0\<rparr>]"
  by (simp add: accrue_def last_accrual_def seed_products_def Let_def init_db_def
      empty_store_def register_def next_id_def recharge_def buy_def mining_def get_user_def
      update_user_def add_tx_def)

section \<open>C8: buying a product\<close>

lemma find_SomeD: "find P xs = Some x \<Longrightarrow> P x"
  by (auto simp: find_Some_iff)

lemma buy_not_found:
  "find (\<lambda>p. slug p = sl \<and> active p) (products s) = None \<Longrightarrow>
     buy s uid sl tp tm = (s, Product_Not_Found)"
  by (simp add: buy_def)

lemma buy_insufficient:
  "find (\<lambda>p. slug p = sl \<and> active p) (products s) = Some p \<Longrightarrow> get_user s uid = Some u \<Longrightarrow>
     balance u < price p \<Longrightarrow> buy s uid sl tp tm = (s, Insufficient_To_Buy)"
  by (simp add: buy_def)

lemma buy_success:
  assumes "find (\<lambda>p. slug p = sl \<and> active p) (products s) = Some p"
    and "get_user s uid = Some u" and "price p \<le> balance u"
  shows "snd (buy s uid sl tp tm) = Product_Purchased"
    and "get_user (fst (buy s uid sl tp tm)) uid = Some (u\<lparr>balance := balance u - price p\<rparr>)"
    and "k \<noteq> uid \<Longrightarrow> get_user (fst (buy s uid sl tp tm)) k = get_user s k"
    and "transactions (fst (buy s uid sl tp tm)) =
        transactions s @ [\<lparr>tx_user_id = uid, tx_type = ''buy_product'', amount = - price p,
                            details = ''Bought '' @ product_name p\<rparr>]"
    and "purchases (fst (buy s uid sl tp tm)) =
        purchases s @ [\<lparr>purchase_id = next_id (map purchase_id (purchases s)),
                         purchase_user_id = uid, purchase_product_id = product_id p,
                         purchased_at = Some tp, last_mined_at = Some tm, accrued = 0\<rparr>]"
    and "products (fst (buy s uid sl tp tm)) = products s"
  using assms get_user_key [OF assms(2)]
  by (simp_all add: buy_def Let_def get_user_update_user)

lemma buy_success_only:
  assumes "snd (buy s uid sl tp tm) = Product_Purchased"
  shows "\<exists>p u. find (\<lambda>p. slug p = sl \<and> active p) (products s) = Some p \<and> active p \<and>
             slug p = sl \<and> get_user s uid = Some u \<and> price p \<le> balance u"
proof (cases "find (\<lambda>p. slug p = sl \<and> active p) (products s)")
  case None
  with assms show ?thesis by (simp add: buy_def)
next
  case (Some p)
  note p = this
  show ?thesis
  proof (cases "get_user s uid")
    case None
    with assms p show ?thesis by (simp add: buy_def)
  next
    case (Some u)
    with assms p have "price p \<le> balance u"
      by (simp add: buy_def Let_def split: if_splits)
    with p Some find_SomeD [OF p] show ?thesis by simp
  qed
qed

text \<open>
  C8 (as amended). \<open>buy\<close> succeeds only when an active product has the slug and the user's
  balance is at least its price. On success the price is subtracted from the balance, one
  transaction of type \<open>buy_product\<close> with the negated price is appended, and one purchase
  is created whose \<open>accrued\<close> is 0 and whose \<open>purchased_at\<close> and \<open>last_mined_at\<close> are the two
  readings of the clock taken for these columns when the row is inserted (equal whenever
  the two readings are). When no active product has the slug, or the balance is below the
  price, the request fails and the database is unchanged.
\<close>

theorem buy_product:
  "(find (\<lambda>p. slug p = sl \<and> active p) (products s) = None \<longrightarrow>
      buy s uid sl tp tm = (s, Product_Not_Found)) \<and>
   (find (\<lambda>p. slug p = sl \<and> active p) (products s) = Some p \<and> get_user s uid = Some u \<and>
    balance u < price p \<longrightarrow>
      buy s uid sl tp tm = (s, Insufficient_To_Buy)) \<and>
   (find (\<lambda>p. slug p = sl \<and> active p) (products s) = Some p \<and> get_user s uid = Some u \<and>
    price p \<le> balance u \<longrightarrow>
      snd (buy s uid sl tp tm) = Product_Purchased \<and>
      get_user (fst (buy s uid sl tp tm)) uid = Some (u\<lparr>balance := balance u - price p\<rparr>) \<and>
      (\<forall>k. k \<noteq> uid \<longrightarrow> get_user (fst (buy s uid sl tp tm)) k = get_user s k) \<and>
      transactions (fst (buy s uid sl tp tm)) =
        transactions s @ [\<lparr>tx_user_id = uid, tx_type = ''buy_product'', amount = - price p,
                            details = ''Bought '' @ product_name p\<rparr>] \<and>
      purchases (fst (buy s uid sl tp tm)) =
        purchases s @ [\<lparr>purchase_id = next_id (map purchase_id (purchases s)),
                         purchase_user_id = uid, purchase_product_id = product_id p,
                         purchased_at = Some tp, last_mined_at = Some tm, accrued = 0\<rparr>] \<and>
      products (fst (buy s uid sl tp tm)) = products s) \<and>
   (snd (buy s uid sl tp tm) = Product_Purchased \<longrightarrow>
      (\<exists>p u. find (\<lambda>p. slug p = sl \<and> active p) (products s) = Some p \<and> active p \<and>
             slug p = sl \<and> get_user s uid = Some u \<and> price p \<le> balance u))"
proof (intro conjI impI)
  assume "find (\<lambda>p. slug p = sl \<and> active p) (products s) = None"
  then show "buy s uid sl tp tm = (s, Product_Not_Found)"
    by (rule buy_not_found)
next
  assume "find (\<lambda>p. slug p = sl \<and> active p) (products s) = Some p \<and> get_user s uid = Some u \<and>
    balance u < price p"
  then show "buy s uid sl tp tm = (s, Insufficient_To_Buy)"
    by (simp add: buy_insufficient)
next
  assume a: "find (\<lambda>p. slug p = sl \<and> active p) (products s) = Some p \<and>
    get_user s uid = Some u \<and> price p \<le> balance u"
  then have f: "find (\<lambda>p. slug p = sl \<and> active p) (products s) = Some p"
    and g: "get_user s uid = Some u" and b: "price p \<le> balance u"
    by simp_all
  show "snd (buy s uid sl tp tm) = Product_Purchased"
    by (rule buy_success(1) [OF f g b])
  show "get_user (fst (buy s uid sl tp tm)) uid = Some (u\<lparr>balance := balance u - price p\<rparr>)"
    by (rule buy_success(2) [OF f g b])
  show "\<forall>k. k \<noteq> uid \<longrightarrow> get_user (fst (buy s uid sl tp tm)) k = get_user s k"
    using buy_success(3) [OF f g b] by blast
  show "transactions (fst (buy s uid sl tp tm)) =
        transactions s @ [\<lparr>tx_user_id = uid, tx_type = ''buy_product'', amount = - price p,
                            details = ''Bought '' @ product_name p\<rparr>]"
    by (rule buy_success(4) [OF f g b])
  show "purchases (fst (buy s uid sl tp tm)) =
        purchases s @ [\<lparr>purchase_id = next_id (map purchase_id (purchases s)),
                         purchase_user_id = uid, purchase_product_id = product_id p,
                         purchased_at = Some tp, last_mined_at = Some tm, accrued = 0\<rparr>]"
    by (rule buy_success(5) [OF f g b])
  show "products (fst (buy s uid sl tp tm)) = products s"
    by (rule buy_success(6) [OF f g b])
next
  assume "snd (buy s uid sl tp tm) = Product_Purchased"
  then show "\<exists>p u. find (\<lambda>p. slug p = sl \<and> active p) (products s) = Some p \<and> active p \<and>
             slug p = sl \<and> get_user s uid = Some u \<and> price p \<le> balance u"
    by (rule buy_success_only)
qed

text \<open>
  The theorem at the example database (a balance of 100): an unknown slug and a product
  priced 250 are refused; the Starter Rig priced 100 is bought, which leaves a balance of 0
  and one purchase.
\<close>

theorem buy_product_witness:
  "buy (run (init_db empty_store)
          [Register ''alice'' ''pw'' ''AAAAAAAA'' (Some ''ZZZZZZZZ''), Recharge 1 100])
       1 ''no-such-rig'' 50 50 =
     (run (init_db empty_store)
          [Register ''alice'' ''pw'' ''AAAAAAAA'' (Some ''ZZZZZZZZ''), Recharge 1 100],
      Product_Not_Found) \<and>
   snd (buy (run (init_db empty_store)
          [Register ''alice'' ''pw'' ''AAAAAAAA'' (Some ''ZZZZZZZZ''), Recharge 1 100])
       1 ''pro-miner'' 50 50) = Insufficient_To_Buy \<and>
   map_option balance (get_user (fst (buy (run (init_db empty_store)
          [Register ''alice'' ''pw'' ''AAAAAAAA'' (Some ''ZZZZZZZZ''), Recharge 1 100])
       1 ''starter-rig'' 50 50)) 1) = Some 0 \<and>
   purchases (fst (buy (run (init_db empty_store)
          [Register ''alice'' ''pw'' ''AAAAAAAA'' (Some ''ZZZZZZZZ''), Recharge 1 100])
       1 ''starter-rig'' 50 50)) =
     [\<lparr>purchase_id = 1, purchase_user_id = 1, purchase_product_id = 1,
       purchased_at = Some 50, last_mined_at = Some 50, accrued = 0\<rparr>]"
proof -
  let ?u = "\<lparr>user_id = 1, username = ''alice'', balance = 100,
               referral_code = ''AAAAAAAA'', referred_by = Some ''ZZZZZZZZ'',
               last_claim_at = None\<rparr>"
  let ?s = "run (init_db empty_store)
           [Register ''alice'' ''pw'' ''AAAAAAAA'' (Some ''ZZZZZZZZ''), Recharge 1 100]"
  let ?q1 = "\<lparr>product_id = 1, product_name = ''Starter Rig'', slug = ''starter-rig'',
      price = 100, hourly_rate = 2 / 100, active = True\<rparr>"
  let ?q2 = "\<lparr>product_id = 2, product_name = ''Pro Miner'', slug = ''pro-miner'',
      price = 250, hourly_rate = 6 / 100, active = True\<rparr>"
  have g: "get_user ?s 1 = Some ?u"
    unfolding demo_store by (simp add: get_user_def)
  have f0: "find (\<lambda>p. slug p = ''no-such-rig'' \<and> active p) (products ?s) = None"
    unfolding demo_store by (simp add: seed_products_def)
  have f1: "find (\<lambda>p. slug p = ''starter-rig'' \<and> active p) (products ?s) = Some ?q1"
    unfolding demo_store by (simp add: seed_products_def)
  have f2: "find (\<lambda>p. slug p = ''pro-miner'' \<and> active p) (products ?s) = Some ?q2"
    unfolding demo_store by (simp add: seed_products_def)
  have p: "purchases ?s = []"
    unfolding demo_store by simp
  from buy_product [where sl = "''no-such-rig''" and s = ?s and uid = 1 and tp = 50 and tm = 50]
    buy_product [where sl = "''pro-miner''" and s = ?s and p = ?q2 and uid = 1 and u = ?u
      and tp = 50 and tm = 50]
    buy_product [where sl = "''starter-rig''" and s = ?s and p = ?q1 and uid = 1 and u = ?u
      and tp = 50 and tm = 50] g f0 f1 f2 p
  show ?thesis by (simp add: next_id_def)
qed

text \<open>
  C8 as the specification states it has both stamps equal to the purchase time. Each of
  the two columns has its own \<^verbatim>\<open>default=datetime.utcnow\<close>, so the clock is read twice; with
  readings 3 microseconds apart the two stamps of the new purchase differ.
\<close>

theorem buy_product_stamps_counterexample:
  "purchases (run (init_db empty_store)
       [Register ''grace'' ''pw'' ''GGGGGGGG'' None, Recharge 1 100,
        Buy 1 ''starter-rig'' 1000000 1000003]) =
     [\<lparr>purchase_id = 1, purchase_user_id = 1, purchase_product_id = 1,
       purchased_at = Some 1000000, last_mined_at = Some 1000003, accrued = 0\<rparr>]"
  by (simp add: seed_products_def init_db_def empty_store_def register_def next_id_def
      recharge_def buy_def get_user_def update_user_def add_tx_def)

section \<open>C6: claiming the mining earnings\<close>

lemma claim_loop_rows:
  "fst (claim_loop uid ps t) =
     map (\<lambda>p. if purchase_user_id p = uid \<and> 0 < accrued p then p\<lparr>accrued := 0\<rparr> else p) ps"
  by (induction ps arbitrary: t) (simp_all add: split_def)

lemma claim_loop_total:
  "snd (claim_loop uid ps t) =
     t + sum_list (map accrued (filter (\<lambda>p. purchase_user_id p = uid \<and> 0 < accrued p) ps))"
  by (induction ps arbitrary: t) (simp_all add: split_def)

lemma claim_loop_total_nonneg: "0 \<le> sum_list (map accrued (filter (\<lambda>p. purchase_user_id p = uid \<and> 0 < accrued p) ps))"
  by (induction ps) auto

lemma positive_total_is_total:
  assumes "\<forall>p \<in> set ps. purchase_user_id p = uid \<longrightarrow> 0 \<le> accrued p"
  shows "sum_list (map accrued (filter (\<lambda>p. purchase_user_id p = uid \<and> 0 < accrued p) ps)) =
         sum_list (map accrued (filter (\<lambda>p. purchase_user_id p = uid) ps))"
  using assms by (induction ps) auto

lemma positive_rows_are_rows:
  assumes "\<forall>p \<in> set ps. purchase_user_id p = uid \<longrightarrow> 0 \<le> accrued p"
  shows "map (\<lambda>p. if purchase_user_id p = uid \<and> 0 < accrued p then p\<lparr>accrued := 0\<rparr> else p) ps =
         map (\<lambda>p. if purchase_user_id p = uid then p\<lparr>accrued := 0\<rparr> else p) ps"
  using assms by (induction ps) auto

lemma no_positive_rows:
  assumes "sum_list (map accrued (filter (\<lambda>p. purchase_user_id p = uid \<and> 0 < accrued p) ps)) \<le> 0"
  shows "map (\<lambda>p. if purchase_user_id p = uid \<and> 0 < accrued p then p\<lparr>accrued := 0\<rparr> else p) ps = ps"
  using assms
proof (induction ps)
  case Nil
  then show ?case by simp
next
  case (Cons p ps)
  have n: "0 \<le> sum_list (map accrued (filter (\<lambda>p. purchase_user_id p = uid \<and> 0 < accrued p) ps))"
    by (rule claim_loop_total_nonneg)
  show ?case
  proof (cases "purchase_user_id p = uid \<and> 0 < accrued p")
    case True
    with Cons.prems n show ?thesis by simp
  next
    case False
    with Cons show ?thesis by auto
  qed
qed

lemma mining_claim_unfold:
  assumes "get_user s uid = Some u"
  shows "mining_claim s uid =
    (if 0 < positive_total s uid then
       (add_tx \<lparr>tx_user_id = uid, tx_type = ''mining'', amount = positive_total s uid,
                details = ''Claimed mining earnings''\<rparr>
          (update_user uid (\<lambda>v. v\<lparr>balance := balance v + positive_total s uid\<rparr>)
             (s\<lparr>purchases := map (\<lambda>p. if purchase_user_id p = uid \<and> 0 < accrued p
                                       then p\<lparr>accrued := 0\<rparr> else p) (purchases s)\<rparr>)),
        Claimed_From_Mining (positive_total s uid))
     else (s, Claimed_From_Mining (positive_total s uid)))"
proof -
  have l: "claim_loop uid (purchases s) 0 =
      (map (\<lambda>p. if purchase_user_id p = uid \<and> 0 < accrued p then p\<lparr>accrued := 0\<rparr> else p)
         (purchases s), positive_total s uid)"
    using claim_loop_rows [of uid "purchases s" 0] claim_loop_total [of uid "purchases s" 0]
    by (simp add: positive_total_def prod_eq_iff)
  have z: "\<not> 0 < positive_total s uid \<Longrightarrow>
      s\<lparr>purchases := map (\<lambda>p. if purchase_user_id p = uid \<and> 0 < accrued p
                                       then p\<lparr>accrued := 0\<rparr> else p) (purchases s)\<rparr> = s"
    using no_positive_rows [of uid "purchases s"] by (simp add: positive_total_def)
  show ?thesis
    using assms get_user_key [OF assms] z by (simp add: mining_claim_def l)
qed

text \<open>
  Products are never changed by a request, and with hourly rates that are not negative no
  purchase ever has a negative \<open>accrued\<close>.
\<close>

lemma products_handle: "products (fst (handle s rq)) = products s"
  by (cases rq)
    (simp_all add: register_def recharge_def topup_def dollar_def daily_claim_def buy_def
      mining_def mining_claim_def Let_def split_def split: option.splits)

lemma products_run: "products (run s rqs) = products s"
  by (induction rqs arbitrary: s) (simp_all add: products_handle)

lemma accrue_nonneg:
  assumes "\<forall>q \<in> set ps. 0 \<le> hourly_rate q" and "0 \<le> accrued p" and "accrue ps now p = Some p'"
  shows "0 \<le> accrued p'"
proof -
  have "0 \<le> hourly_rate q * x" if "find (\<lambda>q. product_id q = purchase_product_id p) ps = Some q"
    and "0 < x" for q x
    using that assms(1) by (auto simp: find_Some_iff)
  then show ?thesis
    using assms(2,3)
    by (auto simp: accrue_def Let_def split: option.splits if_splits)
qed

lemma accrue_all_nonneg:
  assumes "\<forall>q \<in> set ps. 0 \<le> hourly_rate q"
  shows "\<forall>p \<in> set rows. 0 \<le> accrued p \<Longrightarrow> accrue_all ps now uid rows = Some rows' \<Longrightarrow>
         \<forall>p \<in> set rows'. 0 \<le> accrued p"
proof (induction rows arbitrary: rows')
  case Nil
  then show ?case by simp
next
  case (Cons p rows)
  then show ?case
    using accrue_nonneg [OF assms, of p now]
    by (auto split: if_splits option.splits)
qed

lemma purchases_handle_nonneg:
  assumes "\<forall>q \<in> set (products s). 0 \<le> hourly_rate q" and "\<forall>p \<in> set (purchases s). 0 \<le> accrued p"
  shows "\<forall>p \<in> set (purchases (fst (handle s rq))). 0 \<le> accrued p"
proof (cases rq)
  case (Mining k now)
  then show ?thesis
    using assms accrue_all_nonneg [OF assms(1), of "purchases s" now k]
    by (auto simp: mining_def split: option.splits)
next
  case (Mining_Claim k)
  then show ?thesis
    using assms
    by (auto simp: mining_claim_def Let_def split_def claim_loop_rows split: option.splits)
next
  case (Buy k sl t1 t2)
  then show ?thesis
    using assms by (auto simp: buy_def Let_def split: option.splits)
qed (use assms in \<open>auto simp: register_def recharge_def topup_def dollar_def daily_claim_def
      Let_def split: option.splits\<close>)

lemma purchases_run_nonneg:
  assumes "\<forall>q \<in> set (products s). 0 \<le> hourly_rate q" and "\<forall>p \<in> set (purchases s). 0 \<le> accrued p"
  shows "\<forall>p \<in> set (purchases (run s rqs)). 0 \<le> accrued p"
  using assms
proof (induction rqs arbitrary: s)
  case Nil
  then show ?case by simp
next
  case (Cons rq rqs)
  show ?case
    using Cons.IH [of "fst (handle s rq)"] purchases_handle_nonneg [OF Cons.prems, of rq]
      Cons.prems(1)
    by (simp add: products_handle)
qed

lemma mining_claim_of_nonneg:
  assumes "get_user s uid = Some u" and "\<forall>p \<in> set (purchases s). 0 \<le> accrued p"
  shows "snd (mining_claim s uid) = Claimed_From_Mining (claimable s uid)"
    and "0 \<le> claimable s uid"
    and "purchases (fst (mining_claim s uid)) =
           map (\<lambda>p. if purchase_user_id p = uid then p\<lparr>accrued := 0\<rparr> else p) (purchases s)"
    and "0 < claimable s uid \<Longrightarrow>
           transactions (fst (mining_claim s uid)) =
             transactions s @ [\<lparr>tx_user_id = uid, tx_type = ''mining'', amount = claimable s uid,
                                 details = ''Claimed mining earnings''\<rparr>]"
    and "0 < claimable s uid \<Longrightarrow>
           get_user (fst (mining_claim s uid)) uid =
             Some (u\<lparr>balance := balance u + claimable s uid\<rparr>)"
    and "claimable s uid = 0 \<Longrightarrow> fst (mining_claim s uid) = s"
proof -
  have p: "\<forall>p \<in> set (purchases s). purchase_user_id p = uid \<longrightarrow> 0 \<le> accrued p"
    using assms(2) by blast
  have e: "positive_total s uid = claimable s uid"
    using positive_total_is_total [OF p] by (simp add: positive_total_def claimable_def)
  have r: "map (\<lambda>p. if purchase_user_id p = uid \<and> 0 < accrued p then p\<lparr>accrued := 0\<rparr> else p)
             (purchases s) =
           map (\<lambda>p. if purchase_user_id p = uid then p\<lparr>accrued := 0\<rparr> else p) (purchases s)"
    by (rule positive_rows_are_rows [OF p])
  have z: "\<not> 0 < positive_total s uid \<Longrightarrow>
      map (\<lambda>p. if purchase_user_id p = uid \<and> 0 < accrued p then p\<lparr>accrued := 0\<rparr> else p)
             (purchases s) = purchases s"
    using no_positive_rows [of uid "purchases s"] by (simp add: positive_total_def)
  note m = mining_claim_unfold [OF assms(1)]
  show "snd (mining_claim s uid) = Claimed_From_Mining (claimable s uid)"
    by (simp add: m e)
  show "0 \<le> claimable s uid"
    using claim_loop_total_nonneg [of uid "purchases s"] e by (simp add: positive_total_def)
  show "purchases (fst (mining_claim s uid)) =
           map (\<lambda>p. if purchase_user_id p = uid then p\<lparr>accrued := 0\<rparr> else p) (purchases s)"
    using z r by (cases "0 < positive_total s uid") (simp_all add: m)
  show "transactions (fst (mining_claim s uid)) =
             transactions s @ [\<lparr>tx_user_id = uid, tx_type = ''mining'', amount = claimable s uid,
                                 details = ''Claimed mining earnings''\<rparr>]"
    if "0 < claimable s uid"
    using that by (simp add: m e)
  show "get_user (fst (mining_claim s uid)) uid =
             Some (u\<lparr>balance := balance u + claimable s uid\<rparr>)"
    if "0 < claimable s uid"
    using that assms(1) by (simp add: m e get_user_update_user)
  show "fst (mining_claim s uid) = s" if "claimable s uid = 0"
    using that by (simp add: m e)
qed

text \<open>
  C6. In every state reached from a database whose hourly rates and accrued amounts are not
  negative (the seeded database in particular), \<open>mining_claim\<close> of a logged-in user answers
  with the sum of \<open>accrued\<close> across all purchases of the user and sets \<open>accrued\<close> of each of
  them to zero. When that total is positive the balance grows by exactly the total and
  exactly one transaction, of type \<open>mining\<close> and with the total as amount, is appended.
  When the total is zero the database is left exactly as it was: no transaction, no credit.
\<close>

theorem mining_claim_credits_total:
  assumes "\<forall>q \<in> set (products s0). 0 \<le> hourly_rate q"
    and "\<forall>p \<in> set (purchases s0). 0 \<le> accrued p"
    and "get_user (run s0 rqs) uid = Some u"
  shows "snd (mining_claim (run s0 rqs) uid) = Claimed_From_Mining (claimable (run s0 rqs) uid) \<and>
         0 \<le> claimable (run s0 rqs) uid \<and>
         purchases (fst (mining_claim (run s0 rqs) uid)) =
           map (\<lambda>p. if purchase_user_id p = uid then p\<lparr>accrued := 0\<rparr> else p)
             (purchases (run s0 rqs)) \<and>
         (0 < claimable (run s0 rqs) uid \<longrightarrow>
            transactions (fst (mining_claim (run s0 rqs) uid)) =
              transactions (run s0 rqs) @
                [\<lparr>tx_user_id = uid, tx_type = ''mining'', amount = claimable (run s0 rqs) uid,
                  details = ''Claimed mining earnings''\<rparr>] \<and>
            get_user (fst (mining_claim (run s0 rqs) uid)) uid =
              Some (u\<lparr>balance := balance u + claimable (run s0 rqs) uid\<rparr>)) \<and>
         (claimable (run s0 rqs) uid = 0 \<longrightarrow> fst (mining_claim (run s0 rqs) uid) = run s0 rqs)"
proof -
  have n: "\<forall>p \<in> set (purchases (run s0 rqs)). 0 \<le> accrued p"
    by (rule purchases_run_nonneg [OF assms(1,2)])
  from mining_claim_of_nonneg [OF assms(3) n] show ?thesis
    by blast
qed

lemma mining_store:
  "run (init_db empty_store)
     [Register ''alice'' ''pw'' ''AAAAAAAA'' (Some ''ZZZZZZZZ''), Recharge 1 100,
      Buy 1 ''starter-rig'' 0 0, Mining 1 9000000000] =
   \<lparr>users = [\<lparr>user_id = 1, username = ''alice'', balance = 0,
               referral_code = ''AAAAAAAA'', referred_by = Some ''ZZZZZZZZ'',
               last_claim_at = None\<rparr>],
     transactions = [\<lparr>tx_user_id = 1, tx_type = ''recharge'', amount = 100,
                      details = ''Mobile recharge (demo credit)''\<rparr>,
                     \<lparr>tx_user_id = 1, tx_type = ''buy_product'', amount = - 100,
                      details = ''Bought Starter Rig''\<rparr>],
     products = seed_products,
     purchases = [\<lparr>purchase_id = 1, purchase_user_id = 1, purchase_product_id = 1,
                   purchased_at = Some 0, last_mined_at = Some 9000000000,
                   accrued = 5 / 100\<rparr>]\<rparr>"
  by (simp add: init_db_def empty_store_def register_def next_id_def recharge_def buy_def
      mining_def accrue_def last_accrual_def get_user_def update_user_def add_tx_def
      seed_products_def Let_def)

lemma bought_store:
  "run (init_db empty_store)
     [Register ''alice'' ''pw'' ''AAAAAAAA'' (Some ''ZZZZZZZZ''), Recharge 1 100,
      Buy 1 ''starter-rig'' 0 0] =
   \<lparr>users = [\<lparr>user_id = 1, username = ''alice'', balance = 0,
               referral_code = ''AAAAAAAA'', referred_by = Some ''ZZZZZZZZ'',
               last_claim_at = None\<rparr>],
     transactions = [\<lparr>tx_user_id = 1, tx_type = ''recharge'', amount = 100,
                      details = ''Mobile recharge (demo credit)''\<rparr>,
                     \<lparr>tx_user_id = 1, tx_type = ''buy_product'', amount = - 100,
                      details = ''Bought Starter Rig''\<rparr>],
     products = seed_products,
     purchases = [\<lparr>purchase_id = 1, purchase_user_id = 1, purchase_product_id = 1,
                   purchased_at = Some 0, last_mined_at = Some 0, accrued = 0\<rparr>]\<rparr>"
  by (simp add: init_db_def empty_store_def register_def next_id_def recharge_def buy_def
      get_user_def update_user_def add_tx_def seed_products_def Let_def)

lemma seed_rates_nonneg: "\<forall>q \<in> set (products (init_db empty_store)). 0 \<le> hourly_rate q"
  by (simp add: init_db_def empty_store_def seed_products_def)

lemma seed_no_purchases: "\<forall>p \<in> set (purchases (init_db empty_store)). 0 \<le> accrued p"
  by (simp add: init_db_def empty_store_def)

text \<open>
  The theorem at the example of the specification: a Starter Rig bought at time 0 and
  accrued after 150 minutes has 0.05 to claim; the claim credits 0.05 with one transaction
  and resets \<open>accrued\<close>. A claim right after the purchase, with nothing accrued, leaves
  the database as it was.
\<close>

theorem mining_claim_credits_total_witness:
  "snd (mining_claim (run (init_db empty_store)
     [Register ''alice'' ''pw'' ''AAAAAAAA'' (Some ''ZZZZZZZZ''), Recharge 1 100,
      Buy 1 ''starter-rig'' 0 0, Mining 1 9000000000]) 1) = Claimed_From_Mining (5 / 100) \<and>
   map accrued (purchases (fst (mining_claim (run (init_db empty_store)
     [Register ''alice'' ''pw'' ''AAAAAAAA'' (Some ''ZZZZZZZZ''), Recharge 1 100,
      Buy 1 ''starter-rig'' 0 0, Mining 1 9000000000]) 1))) = [0] \<and>
   map_option balance (get_user (fst (mining_claim (run (init_db empty_store)
     [Register ''alice'' ''pw'' ''AAAAAAAA'' (Some ''ZZZZZZZZ''), Recharge 1 100,
      Buy 1 ''starter-rig'' 0 0, Mining 1 9000000000]) 1)) 1) = Some (5 / 100) \<and>
   map amount (transactions (fst (mining_claim (run (init_db empty_store)
     [Register ''alice'' ''pw'' ''AAAAAAAA'' (Some ''ZZZZZZZZ''), Recharge 1 100,
      Buy 1 ''starter-rig'' 0 0, Mining 1 9000000000]) 1))) = [100, - 100, 5 / 100] \<and>
   fst (mining_claim (run (init_db empty_store)
     [Register ''alice'' ''pw'' ''AAAAAAAA'' (Some ''ZZZZZZZZ''), Recharge 1 100,
      Buy 1 ''starter-rig'' 0 0]) 1) =
     run (init_db empty_store)
     [Register ''alice'' ''pw'' ''AAAAAAAA'' (Some ''ZZZZZZZZ''), Recharge 1 100,
      Buy 1 ''starter-rig'' 0 0]"
proof -
  let ?rqs = "[Register ''alice'' ''pw'' ''AAAAAAAA'' (Some ''ZZZZZZZZ''), Recharge 1 100,
      Buy 1 ''starter-rig'' 0 0, Mining 1 9000000000]"
  let ?bought = "[Register ''alice'' ''pw'' ''AAAAAAAA'' (Some ''ZZZZZZZZ''), Recharge 1 100,
      Buy 1 ''starter-rig'' 0 0]"
  let ?u = "\<lparr>user_id = 1, username = ''alice'', balance = 0,
               referral_code = ''AAAAAAAA'', referred_by = Some ''ZZZZZZZZ'',
               last_claim_at = None\<rparr>"
  have g: "get_user (run (init_db empty_store) ?rqs) 1 = Some ?u"
    unfolding mining_store by (simp add: get_user_def)
  have c: "claimable (run (init_db empty_store) ?rqs) 1 = 5 / 100"
    unfolding mining_store by (simp add: claimable_def)
  have g0: "get_user (run (init_db empty_store) ?bought) 1 = Some ?u"
    unfolding bought_store by (simp add: get_user_def)
  have c0: "claimable (run (init_db empty_store) ?bought) 1 = 0"
    unfolding bought_store by (simp add: claimable_def)
  note t = mining_claim_credits_total [OF seed_rates_nonneg seed_no_purchases g]
  note t0 = mining_claim_credits_total [OF seed_rates_nonneg seed_no_purchases g0]
  have p: "purchases (run (init_db empty_store) ?rqs) =
     [\<lparr>purchase_id = 1, purchase_user_id = 1, purchase_product_id = 1,
                   purchased_at = Some 0, last_mined_at = Some 9000000000,
                   accrued = 5 / 100\<rparr>]"
    unfolding mining_store by simp
  have x: "transactions (run (init_db empty_store) ?rqs) =
      [\<lparr>tx_user_id = 1, tx_type = ''recharge'', amount = 100,
                      details = ''Mobile recharge (demo credit)''\<rparr>,
                     \<lparr>tx_user_id = 1, tx_type = ''buy_product'', amount = - 100,
                      details = ''Bought Starter Rig''\<rparr>]"
    unfolding mining_store by simp
  from t t0 c c0 show ?thesis
    unfolding p x by simp
qed

section \<open>C10: what the mining claim leaves alone\<close>

lemma accrue_after_reset:
  assumes "last_accrual p = Some t0" and "t0 < now"
    and "find (\<lambda>q. product_id q = purchase_product_id p) ps = Some q"
  shows "accrue ps now (p\<lparr>accrued := 0\<rparr>) =
           Some (p\<lparr>accrued := hourly_rate q * (real_of_int (now - t0) / 1000000 / 3600),
                   last_mined_at := Some now\<rparr>)"
proof -
  have "last_accrual (p\<lparr>accrued := 0\<rparr>) = Some t0"
    using assms(1) by (simp add: last_accrual_def split: option.splits)
  then show ?thesis
    using assms(2,3) by (simp add: accrue_def Let_def)
qed

lemma mining_claim_rows:
  assumes "get_user s uid = Some u"
  shows "purchases (fst (mining_claim s uid)) =
           map (\<lambda>p. if purchase_user_id p = uid \<and> 0 < accrued p then p\<lparr>accrued := 0\<rparr> else p)
             (purchases s)"
proof (cases "0 < positive_total s uid")
  case True
  then show ?thesis by (simp add: mining_claim_unfold [OF assms])
next
  case False
  then show ?thesis
    using no_positive_rows [of uid "purchases s"]
    by (simp add: mining_claim_unfold [OF assms] positive_total_def)
qed

lemma mining_claim_users:
  assumes "get_user s uid = Some u"
  shows "users (fst (mining_claim s uid)) =
           map (\<lambda>v. if user_id v = uid then v\<lparr>balance := balance v + positive_total s uid\<rparr> else v)
             (users s)"
proof (cases "0 < positive_total s uid")
  case True
  then show ?thesis by (simp add: mining_claim_unfold [OF assms])
next
  case False
  have "0 \<le> positive_total s uid"
    using claim_loop_total_nonneg [of uid "purchases s"] by (simp add: positive_total_def)
  with False have "positive_total s uid = 0" by simp
  then show ?thesis
    by (simp add: mining_claim_unfold [OF assms] map_idI)
qed

text \<open>
  C10. \<open>mining_claim\<close> of a logged-in user changes rows only in two ways: \<open>accrued\<close> becomes
  zero in the user's purchases where it was positive, and the user's balance grows by the
  amount claimed. Products, every purchase's \<open>last_mined_at\<close> and \<open>purchased_at\<close>, every
  user's \<open>last_claim_at\<close> and \<open>referred_by\<close>, and the transactions recorded so far are as
  they were. So the time since the last accrual is not lost by a claim: for a claimed
  purchase last accrued at \<open>t0\<close>, the next accrual at a later \<open>now\<close> counts all the hours
  from \<open>t0\<close> to \<open>now\<close>.
\<close>

theorem mining_claim_frame:
  assumes "get_user s uid = Some u"
  shows "products (fst (mining_claim s uid)) = products s \<and>
         purchases (fst (mining_claim s uid)) =
           map (\<lambda>p. if purchase_user_id p = uid \<and> 0 < accrued p then p\<lparr>accrued := 0\<rparr> else p)
             (purchases s) \<and>
         map last_mined_at (purchases (fst (mining_claim s uid))) =
           map last_mined_at (purchases s) \<and>
         map purchased_at (purchases (fst (mining_claim s uid))) =
           map purchased_at (purchases s) \<and>
         users (fst (mining_claim s uid)) =
           map (\<lambda>v. if user_id v = uid then v\<lparr>balance := balance v + positive_total s uid\<rparr> else v)
             (users s) \<and>
         map last_claim_at (users (fst (mining_claim s uid))) = map last_claim_at (users s) \<and>
         map referred_by (users (fst (mining_claim s uid))) = map referred_by (users s) \<and>
         take (length (transactions s)) (transactions (fst (mining_claim s uid))) =
           transactions s \<and>
         (\<forall>p \<in> set (purchases s). \<forall>q t0 now.
            purchase_user_id p = uid \<and> 0 < accrued p \<and> last_accrual p = Some t0 \<and> t0 < now \<and>
            find (\<lambda>q. product_id q = purchase_product_id p) (products s) = Some q \<longrightarrow>
              p\<lparr>accrued := 0\<rparr> \<in> set (purchases (fst (mining_claim s uid))) \<and>
              accrue (products (fst (mining_claim s uid))) now (p\<lparr>accrued := 0\<rparr>) =
                Some (p\<lparr>accrued := hourly_rate q * (real_of_int (now - t0) / 1000000 / 3600),
                        last_mined_at := Some now\<rparr>))"
proof -
  note rows = mining_claim_rows [OF assms]
  note us = mining_claim_users [OF assms]
  have pr: "products (fst (mining_claim s uid)) = products s"
    using products_handle [of s "Mining_Claim uid"] by simp
  have lm: "map last_mined_at (purchases (fst (mining_claim s uid))) =
           map last_mined_at (purchases s)"
    unfolding rows by (simp add: comp_def if_distrib [of last_mined_at] cong: if_cong)
  have pa: "map purchased_at (purchases (fst (mining_claim s uid))) =
           map purchased_at (purchases s)"
    unfolding rows by (simp add: comp_def if_distrib [of purchased_at] cong: if_cong)
  have lc: "map last_claim_at (users (fst (mining_claim s uid))) = map last_claim_at (users s)"
    unfolding us by (simp add: comp_def if_distrib [of last_claim_at] cong: if_cong)
  have rb: "map referred_by (users (fst (mining_claim s uid))) = map referred_by (users s)"
    unfolding us by (simp add: comp_def if_distrib [of referred_by] cong: if_cong)
  have tx: "take (length (transactions s)) (transactions (fst (mining_claim s uid))) =
           transactions s"
    by (simp add: mining_claim_unfold [OF assms])
  have nx: "\<forall>p \<in> set (purchases s). \<forall>q t0 now.
            purchase_user_id p = uid \<and> 0 < accrued p \<and> last_accrual p = Some t0 \<and> t0 < now \<and>
            find (\<lambda>q. product_id q = purchase_product_id p) (products s) = Some q \<longrightarrow>
              p\<lparr>accrued := 0\<rparr> \<in> set (purchases (fst (mining_claim s uid))) \<and>
              accrue (products (fst (mining_claim s uid))) now (p\<lparr>accrued := 0\<rparr>) =
                Some (p\<lparr>accrued := hourly_rate q * (real_of_int (now - t0) / 1000000 / 3600),
                        last_mined_at := Some now\<rparr>)"
  proof (intro ballI allI impI)
    fix p q t0 now
    assume p: "p \<in> set (purchases s)"
      and h: "purchase_user_id p = uid \<and> 0 < accrued p \<and> last_accrual p = Some t0 \<and> t0 < now \<and>
            find (\<lambda>q. product_id q = purchase_product_id p) (products s) = Some q"
    have "p\<lparr>accrued := 0\<rparr> \<in> set (purchases (fst (mining_claim s uid)))"
      unfolding rows using p h by force
    moreover have "accrue (products (fst (mining_claim s uid))) now (p\<lparr>accrued := 0\<rparr>) =
                Some (p\<lparr>accrued := hourly_rate q * (real_of_int (now - t0) / 1000000 / 3600),
                        last_mined_at := Some now\<rparr>)"
      unfolding pr using h by (simp add: accrue_after_reset)
    ultimately show "p\<lparr>accrued := 0\<rparr> \<in> set (purchases (fst (mining_claim s uid))) \<and>
              accrue (products (fst (mining_claim s uid))) now (p\<lparr>accrued := 0\<rparr>) =
                Some (p\<lparr>accrued := hourly_rate q * (real_of_int (now - t0) / 1000000 / 3600),
                        last_mined_at := Some now\<rparr>)"
      by simp
  qed
  from pr rows lm pa us lc rb tx nx show ?thesis
    by (intro conjI)
qed

text \<open>
  The theorem at the example database: the Starter Rig accrued at 150 minutes is claimed,
  which resets \<open>accrued\<close>, keeps \<open>last_mined_at\<close> at 150 minutes and credits 0.05; the
  next accrual at 210 minutes counts the hour since minute 150.
\<close>

theorem mining_claim_frame_witness:
  "purchases (fst (mining_claim (run (init_db empty_store)
     [Register ''alice'' ''pw'' ''AAAAAAAA'' (Some ''ZZZZZZZZ''), Recharge 1 100,
      Buy 1 ''starter-rig'' 0 0, Mining 1 9000000000]) 1)) =
     [\<lparr>purchase_id = 1, purchase_user_id = 1, purchase_product_id = 1,
       purchased_at = Some 0, last_mined_at = Some 9000000000, accrued = 0\<rparr>] \<and>
   users (fst (mining_claim (run (init_db empty_store)
     [Register ''alice'' ''pw'' ''AAAAAAAA'' (Some ''ZZZZZZZZ''), Recharge 1 100,
      Buy 1 ''starter-rig'' 0 0, Mining 1 9000000000]) 1)) =
     [\<lparr>user_id = 1, username = ''alice'', balance = 5 / 100,
       referral_code = ''AAAAAAAA'', referred_by = Some ''ZZZZZZZZ'', last_claim_at = None\<rparr>] \<and>
   accrue (products (fst (mining_claim (run (init_db empty_store)
     [Register ''alice'' ''pw'' ''AAAAAAAA'' (Some ''ZZZZZZZZ''), Recharge 1 100,
      Buy 1 ''starter-rig'' 0 0, Mining 1 9000000000]) 1))) 12600000000
     \<lparr>purchase_id = 1, purchase_user_id = 1, purchase_product_id = 1,
       purchased_at = Some 0, last_mined_at = Some 9000000000, accrued = 0\<rparr> =
     Some \<lparr>purchase_id = 1, purchase_user_id = 1, purchase_product_id = 1,
       purchased_at = Some 0, last_mined_at = Some 12600000000, accrued = 2 / 100\<rparr>"
proof -
  let ?s = "run (init_db empty_store)
     [Register ''alice'' ''pw'' ''AAAAAAAA'' (Some ''ZZZZZZZZ''), Recharge 1 100,
      Buy 1 ''starter-rig'' 0 0, Mining 1 9000000000]"
  let ?u = "\<lparr>user_id = 1, username = ''alice'', balance = 0,
               referral_code = ''AAAAAAAA'', referred_by = Some ''ZZZZZZZZ'',
               last_claim_at = None\<rparr>"
  let ?p = "\<lparr>purchase_id = 1, purchase_user_id = 1, purchase_product_id = 1,
       purchased_at = Some 0, last_mined_at = Some 9000000000, accrued = 5 / 100\<rparr>"
  let ?q = "\<lparr>product_id = 1, product_name = ''Starter Rig'', slug = ''starter-rig'',
      price = 100, hourly_rate = 2 / 100, active = True\<rparr>"
  have g: "get_user ?s 1 = Some ?u"
    unfolding mining_store by (simp add: get_user_def)
  have t: "positive_total ?s 1 = 5 / 100"
    unfolding mining_store by (simp add: positive_total_def)
  have m: "?p \<in> set (purchases ?s)"
    unfolding mining_store by simp
  have a: "last_accrual ?p = Some 9000000000"
    by (simp add: last_accrual_def)
  have f: "find (\<lambda>q. product_id q = purchase_product_id ?p) (products ?s) = Some ?q"
    unfolding mining_store by (simp add: seed_products_def)
  note fr = mining_claim_frame [OF g]
  have rows: "purchases (fst (mining_claim ?s 1)) =
     [\<lparr>purchase_id = 1, purchase_user_id = 1, purchase_product_id = 1,
       purchased_at = Some 0, last_mined_at = Some 9000000000, accrued = 0\<rparr>]"
    using fr unfolding mining_store by simp
  have us: "users (fst (mining_claim ?s 1)) =
     [\<lparr>user_id = 1, username = ''alice'', balance = 5 / 100,
       referral_code = ''AAAAAAAA'', referred_by = Some ''ZZZZZZZZ'', last_claim_at = None\<rparr>]"
    using fr t unfolding mining_store by simp
  have nx: "accrue (products (fst (mining_claim ?s 1))) 12600000000 (?p\<lparr>accrued := 0\<rparr>) =
      Some (?p\<lparr>accrued := hourly_rate ?q * (real_of_int (12600000000 - 9000000000) / 1000000 / 3600),
              last_mined_at := Some 12600000000\<rparr>)"
  proof -
    note l = fr [THEN conjunct2, THEN conjunct2, THEN conjunct2, THEN conjunct2,
        THEN conjunct2, THEN conjunct2, THEN conjunct2, THEN conjunct2]
    from l [rule_format, OF m, where q = ?q and ?t0.0 = 9000000000 and now = 12600000000] a f
    show ?thesis by simp
  qed
  from rows us nx show ?thesis by simp
qed

section \<open>C1: the transactions are the audit trail of the balance\<close>

lemma tx_sum_add_tx [simp]:
  "tx_sum (add_tx t s) k = (if tx_user_id t = k then tx_sum s k + amount t else tx_sum s k)"
  by (simp add: tx_sum_def)

lemma tx_sum_update_user [simp]: "tx_sum (update_user uid f s) k = tx_sum s k"
  by (simp add: tx_sum_def)

lemma tx_sum_purchases_update [simp]: "tx_sum (s\<lparr>purchases := ps\<rparr>) k = tx_sum s k"
  by (simp add: tx_sum_def)

lemma tx_sum_users_update [simp]: "tx_sum (s\<lparr>users := us\<rparr>) k = tx_sum s k"
  by (simp add: tx_sum_def)

lemma user_keys_add_tx [simp]: "user_keys (add_tx t s) = user_keys s"
  by (simp add: user_keys_def)

lemma user_keys_purchases_update [simp]: "user_keys (s\<lparr>purchases := ps\<rparr>) = user_keys s"
  by (simp add: user_keys_def)

lemma user_keys_update_user:
  assumes "\<And>u. user_id (f u) = user_id u"
  shows "user_keys (update_user k f s) = user_keys s"
  unfolding user_keys_def users_update_user set_map image_image
  by (rule image_cong) (auto simp: assms)

lemma get_user_in_keys: "get_user s k = Some u \<Longrightarrow> k \<in> user_keys s"
  using get_user_key [of s k u] get_user_mem [of s k u] by (auto simp: user_keys_def)

lemma tx_sum_unknown_key:
  assumes "tx_user_id ` set (transactions s) \<subseteq> user_keys s" and "k \<notin> user_keys s"
  shows "tx_sum s k = 0"
proof -
  have "filter (\<lambda>t. tx_user_id t = k) (transactions s) = []"
    using assms by (auto simp: filter_empty_conv)
  then show ?thesis by (simp add: tx_sum_def)
qed

lemma ledger_ok_post:
  assumes "ledger_ok s" and "k \<in> user_keys s"
  shows "ledger_ok (post k ty a d s)"
proof -
  let ?g = "\<lambda>u. if user_id u = k then u\<lparr>balance := balance u + a\<rparr> else u"
  have keys: "user_keys (post k ty a d s) = user_keys s"
    by (simp add: post_def user_keys_update_user)
  have txs: "set (transactions (post k ty a d s)) =
      insert \<lparr>tx_user_id = k, tx_type = ty, amount = a, details = d\<rparr> (set (transactions s))"
    by (simp add: post_def)
  have us: "users (post k ty a d s) = map ?g (users s)"
    by (simp add: post_def)
  have total: "tx_sum (post k ty a d s) j = (if k = j then tx_sum s j + a else tx_sum s j)" for j
    by (simp add: post_def)
  have owners: "tx_user_id ` set (transactions s) \<subseteq> user_keys s"
    using assms(1) by (simp add: ledger_ok_def)
  have 1: "tx_user_id ` set (transactions (post k ty a d s)) \<subseteq> user_keys (post k ty a d s)"
    unfolding keys txs using owners assms(2) by simp
  have 2: "\<forall>u \<in> set (users (post k ty a d s)). tx_sum (post k ty a d s) (user_id u) = balance u"
  proof
    fix u
    assume "u \<in> set (users (post k ty a d s))"
    then obtain v where v: "v \<in> set (users s)" and u: "u = ?g v"
      unfolding us by auto
    have "tx_sum s (user_id v) = balance v"
      using assms(1) v by (simp add: ledger_ok_def)
    then show "tx_sum (post k ty a d s) (user_id u) = balance u"
      unfolding total u by (cases "user_id v = k") auto
  qed
  show ?thesis
    unfolding ledger_ok_def by (intro conjI 1 2)
qed

lemma ledger_ok_touch:
  assumes "ledger_ok s" and "\<And>v. balance (f v) = balance v" and "\<And>v. user_id (f v) = user_id v"
  shows "ledger_ok (update_user k f s)"
  using assms by (auto simp: ledger_ok_def user_keys_update_user)

lemma ledger_ok_rows: "ledger_ok s \<Longrightarrow> ledger_ok (s\<lparr>purchases := ps\<rparr>)"
  by (simp add: ledger_ok_def)

lemma ledger_ok_new_user:
  assumes "ledger_ok s" and "balance r = 0" and "user_id r = next_id (map user_id (users s))"
  shows "ledger_ok (s\<lparr>users := users s @ [r]\<rparr>)"
proof -
  have "user_id r \<notin> user_keys s"
    using next_id_fresh [of "map user_id (users s)"] assms(3) by (simp add: user_keys_def)
  then have "tx_sum s (user_id r) = 0"
    using assms(1) by (intro tx_sum_unknown_key) (auto simp: ledger_ok_def)
  then show ?thesis
    using assms(1,2) by (auto simp: ledger_ok_def user_keys_def)
qed

lemma posts_ledger_ok: "posts s s' \<Longrightarrow> ledger_ok s \<Longrightarrow> ledger_ok s'"
  by (induction rule: posts.induct)
    (simp_all add: ledger_ok_post ledger_ok_touch ledger_ok_rows ledger_ok_new_user)


lemma get_user_post:
  "get_user (post k ty a d s) j =
     (if j = k then map_option (\<lambda>v. v\<lparr>balance := balance v + a\<rparr>) (get_user s j)
      else get_user s j)"
  by (simp add: post_def get_user_update_user)

lemma transactions_post:
  "transactions (post k ty a d s) =
     transactions s @ [\<lparr>tx_user_id = k, tx_type = ty, amount = a, details = d\<rparr>]"
  by (simp add: post_def)

lemma get_user_new_user:
  "get_user s j = Some u \<Longrightarrow> get_user (s\<lparr>users := users s @ [r]\<rparr>) j = Some u"
  by (simp add: get_user_def find_append_first)

lemma posts_step:
  assumes "posts s s'"
  shows "\<exists>A. transactions s' = transactions s @ A \<and>
           (\<forall>k u. get_user s k = Some u \<longrightarrow>
              (\<exists>u'. get_user s' k = Some u' \<and>
                 balance u' =
                   foldl (+) (balance u) (map amount (filter (\<lambda>t. tx_user_id t = k) A))))"
  using assms
proof (induction rule: posts.induct)
  case (nothing s)
  have "transactions s = transactions s @ [] \<and>
           (\<forall>k u. get_user s k = Some u \<longrightarrow>
              (\<exists>u'. get_user s k = Some u' \<and>
                 balance u' =
                   foldl (+) (balance u) (map amount (filter (\<lambda>t. tx_user_id t = k) []))))"
    by simp
  then show ?case by blast
next
  case (posting s s1 k ty a d)
  then obtain A where tx: "transactions s1 = transactions s @ A"
    and bal: "\<And>j u. get_user s j = Some u \<Longrightarrow>
              \<exists>u'. get_user s1 j = Some u' \<and>
                 balance u' =
                   foldl (+) (balance u) (map amount (filter (\<lambda>t. tx_user_id t = j) A))"
    by blast
  let ?t = "\<lparr>tx_user_id = k, tx_type = ty, amount = a, details = d\<rparr>"
  have "transactions (post k ty a d s1) = transactions s @ (A @ [?t])"
    by (simp add: transactions_post tx)
  moreover have "\<exists>u'. get_user (post k ty a d s1) j = Some u' \<and>
                 balance u' =
                   foldl (+) (balance u)
                     (map amount (filter (\<lambda>t. tx_user_id t = j) (A @ [?t])))"
    if "get_user s j = Some u" for j u
  proof -
    from bal [OF that] obtain u1 where u1: "get_user s1 j = Some u1"
      and b1: "balance u1 =
                   foldl (+) (balance u) (map amount (filter (\<lambda>t. tx_user_id t = j) A))"
      by blast
    show ?thesis
      using u1 b1 by (cases "j = k") (auto simp: get_user_post)
  qed
  ultimately show ?case by blast
next
  case (touching s s1 f k)
  then obtain A where tx: "transactions s1 = transactions s @ A"
    and bal: "\<And>j u. get_user s j = Some u \<Longrightarrow>
              \<exists>u'. get_user s1 j = Some u' \<and>
                 balance u' =
                   foldl (+) (balance u) (map amount (filter (\<lambda>t. tx_user_id t = j) A))"
    by blast
  have "transactions (update_user k f s1) = transactions s @ A"
    by (simp add: tx)
  moreover have "\<exists>u'. get_user (update_user k f s1) j = Some u' \<and>
                 balance u' =
                   foldl (+) (balance u) (map amount (filter (\<lambda>t. tx_user_id t = j) A))"
    if "get_user s j = Some u" for j u
  proof -
    from bal [OF that] obtain u1 where u1: "get_user s1 j = Some u1"
      and b1: "balance u1 =
                   foldl (+) (balance u) (map amount (filter (\<lambda>t. tx_user_id t = j) A))"
      by blast
    show ?thesis
      using u1 b1 by (cases "j = k") (auto simp: get_user_update_user touching.hyps)
  qed
  ultimately show ?case by blast
next
  case (rows s s1 ps)
  then obtain A where tx: "transactions s1 = transactions s @ A"
    and bal: "\<And>j u. get_user s j = Some u \<Longrightarrow>
              \<exists>u'. get_user s1 j = Some u' \<and>
                 balance u' =
                   foldl (+) (balance u) (map amount (filter (\<lambda>t. tx_user_id t = j) A))"
    by blast
  have "transactions (s1\<lparr>purchases := ps\<rparr>) = transactions s @ A"
    by (simp add: tx)
  moreover have "\<exists>u'. get_user (s1\<lparr>purchases := ps\<rparr>) j = Some u' \<and>
                 balance u' =
                   foldl (+) (balance u) (map amount (filter (\<lambda>t. tx_user_id t = j) A))"
    if "get_user s j = Some u" for j u
    using bal [OF that] by simp
  ultimately show ?case by blast
next
  case (new_user s s1 r)
  then obtain A where tx: "transactions s1 = transactions s @ A"
    and bal: "\<And>j u. get_user s j = Some u \<Longrightarrow>
              \<exists>u'. get_user s1 j = Some u' \<and>
                 balance u' =
                   foldl (+) (balance u) (map amount (filter (\<lambda>t. tx_user_id t = j) A))"
    by blast
  have "transactions (s1\<lparr>users := users s1 @ [r]\<rparr>) = transactions s @ A"
    by (simp add: tx)
  moreover have "\<exists>u'. get_user (s1\<lparr>users := users s1 @ [r]\<rparr>) j = Some u' \<and>
                 balance u' =
                   foldl (+) (balance u) (map amount (filter (\<lambda>t. tx_user_id t = j) A))"
    if "get_user s j = Some u" for j u
  proof -
    from bal [OF that] obtain u1 where u1: "get_user s1 j = Some u1"
      and b1: "balance u1 =
                   foldl (+) (balance u) (map amount (filter (\<lambda>t. tx_user_id t = j) A))"
      by blast
    show ?thesis
      using get_user_new_user [OF u1, of r] b1 by simp
  qed
  ultimately show ?case by blast
qed

lemma posts_post1: "get_user s k = Some u \<Longrightarrow> posts s (post k ty a d s)"
  by (rule posts.posting [OF posts.nothing get_user_in_keys])

lemma posts_register: "posts s (fst (register s name password code ref))"
proof (cases "snd (register s name password code ref) = Registered")
  case True
  then have "fst (register s name password code ref) =
      s\<lparr>users := users s @
         [\<lparr>user_id = next_id (map user_id (users s)), username = name, balance = 0,
           referral_code = code, referred_by = ref, last_claim_at = None\<rparr>]\<rparr>"
    by (simp add: register_def split: if_splits)
  then show ?thesis
    using posts.new_user [OF posts.nothing, of
        "\<lparr>user_id = next_id (map user_id (users s)), username = name, balance = 0,
           referral_code = code, referred_by = ref, last_claim_at = None\<rparr>" s]
    by simp
next
  case False
  then have "fst (register s name password code ref) = s"
    by (auto simp: register_def split: if_splits)
  then show ?thesis by (simp add: posts.nothing)
qed

lemma posts_recharge: "posts s (fst (recharge s uid amt))"
proof (cases "get_user s uid")
  case None
  then have "fst (recharge s uid amt) = s" by (simp add: recharge_def)
  then show ?thesis by (simp add: posts.nothing)
next
  case (Some u)
  show ?thesis
  proof (cases "0 < amt")
    case True
    then have "fst (recharge s uid amt) =
        post uid ''recharge'' amt ''Mobile recharge (demo credit)'' s"
      using Some get_user_key [OF Some] by (simp add: recharge_def post_def)
    then show ?thesis using posts_post1 [OF Some] by simp
  next
    case False
    then have "fst (recharge s uid amt) = s" by (simp add: recharge_def)
    then show ?thesis by (simp add: posts.nothing)
  qed
qed

lemma posts_topup: "posts s (fst (topup s uid amt))"
proof (cases "get_user s uid")
  case None
  then have "fst (topup s uid amt) = s" by (simp add: topup_def)
  then show ?thesis by (simp add: posts.nothing)
next
  case (Some u)
  show ?thesis
  proof (cases "0 < amt \<and> amt \<le> balance u")
    case True
    then have "fst (topup s uid amt) =
        post uid ''topup'' (- amt) ''Diamond top-up (demo spend)'' s"
      using Some get_user_key [OF Some] by (simp add: topup_def post_def)
    then show ?thesis using posts_post1 [OF Some] by simp
  next
    case False
    then have "fst (topup s uid amt) = s" using Some by (auto simp: topup_def)
    then show ?thesis by (simp add: posts.nothing)
  qed
qed

lemma posts_dollar: "posts s (fst (dollar s uid action amt))"
proof (cases "get_user s uid")
  case None
  then have "fst (dollar s uid action amt) = s" by (simp add: dollar_def)
  then show ?thesis by (simp add: posts.nothing)
next
  case (Some u)
  consider (buy) "0 < amt" "action = Some ''buy''" "amt \<le> balance u"
    | (sell) "0 < amt" "action = Some ''sell''"
    | (none) "\<not> (0 < amt \<and> action = Some ''buy'' \<and> amt \<le> balance u)"
        "\<not> (0 < amt \<and> action = Some ''sell'')"
    by blast
  then show ?thesis
  proof cases
    case buy
    then have "fst (dollar s uid action amt) =
        post uid ''buy'' (- amt) ''Bought dollars (demo)'' s"
      using Some get_user_key [OF Some] by (simp add: dollar_def post_def)
    then show ?thesis using posts_post1 [OF Some] by simp
  next
    case sell
    then have "fst (dollar s uid action amt) =
        post uid ''sell'' amt ''Sold dollars (demo)'' s"
      using Some get_user_key [OF Some] by (simp add: dollar_def post_def)
    then show ?thesis using posts_post1 [OF Some] by simp
  next
    case none
    then have "fst (dollar s uid action amt) = s"
      using Some by (auto simp: dollar_def)
    then show ?thesis by (simp add: posts.nothing)
  qed
qed


lemma referrer_of_in_keys: "referrer_of s u = Some r \<Longrightarrow> user_id r \<in> user_keys s"
  by (auto simp: referrer_of_def user_keys_def find_Some_iff split: option.splits if_splits)

lemma posts_daily_claim: "posts s (fst (daily_claim s uid now))"
proof (cases "get_user s uid")
  case None
  then have "fst (daily_claim s uid now) = s" by (simp add: daily_claim_def)
  then show ?thesis by (simp add: posts.nothing)
next
  case (Some u)
  note k = get_user_key [OF Some]
  show ?thesis
  proof (cases "claim_wait u now")
    case (Some remaining)
    then have "fst (daily_claim s uid now) = s"
      using \<open>get_user s uid = Some u\<close> by (simp add: daily_claim_def)
    then show ?thesis by (simp add: posts.nothing)
  next
    case None
    define s3 where
      "s3 = update_user uid (\<lambda>v. v\<lparr>last_claim_at := Some now\<rparr>)
              (post uid ''bonus'' 5 ''Daily claim bonus'' s)"
    have p3: "posts s s3"
      unfolding s3_def
      by (rule posts.touching [OF posts_post1 [OF \<open>get_user s uid = Some u\<close>]]) simp_all
    have k3: "user_keys s3 = user_keys s"
      by (simp add: s3_def post_def user_keys_update_user)
    show ?thesis
    proof (cases "referrer_of s u")
      case None
      then have "fst (daily_claim s uid now) = s3"
        using \<open>get_user s uid = Some u\<close> \<open>claim_wait u now = None\<close> k
        by (simp add: daily_claim_def Let_def s3_def post_def add_tx_def update_user_def)
      then show ?thesis using p3 by simp
    next
      case (Some r)
      have "fst (daily_claim s uid now) =
          update_user uid (\<lambda>v. v\<lparr>referred_by := None\<rparr>)
            (post (user_id r) ''bonus'' 1 (''Referral bonus from '' @ username u) s3)"
        using \<open>get_user s uid = Some u\<close> \<open>claim_wait u now = None\<close> Some k
        by (simp add: daily_claim_def Let_def s3_def post_def add_tx_def update_user_def)
      moreover have "posts s (update_user uid (\<lambda>v. v\<lparr>referred_by := None\<rparr>)
            (post (user_id r) ''bonus'' 1 (''Referral bonus from '' @ username u) s3))"
        using referrer_of_in_keys [OF Some] k3
        by (intro posts.touching posts.posting p3) simp_all
      ultimately show ?thesis by simp
    qed
  qed
qed

lemma posts_buy: "posts s (fst (buy s uid sl t1 t2))"
proof (cases "find (\<lambda>p. slug p = sl \<and> active p) (products s)")
  case None
  then have "fst (buy s uid sl t1 t2) = s" by (simp add: buy_def)
  then show ?thesis by (simp add: posts.nothing)
next
  case (Some p)
  note p = this
  show ?thesis
  proof (cases "get_user s uid")
    case None
    then have "fst (buy s uid sl t1 t2) = s" using p by (simp add: buy_def)
    then show ?thesis by (simp add: posts.nothing)
  next
    case (Some u)
    show ?thesis
    proof (cases "balance u < price p")
      case True
      then have "fst (buy s uid sl t1 t2) = s" using p Some by (simp add: buy_def)
      then show ?thesis by (simp add: posts.nothing)
    next
      case False
      then have "fst (buy s uid sl t1 t2) =
          (post uid ''buy_product'' (- price p) (''Bought '' @ product_name p) s)
            \<lparr>purchases := purchases s @
               [\<lparr>purchase_id = next_id (map purchase_id (purchases s)),
                 purchase_user_id = uid, purchase_product_id = product_id p,
                 purchased_at = Some t1, last_mined_at = Some t2, accrued = 0\<rparr>]\<rparr>"
        using p Some get_user_key [OF Some]
        by (simp add: buy_def Let_def post_def add_tx_def update_user_def)
      then show ?thesis
        using posts.rows [OF posts_post1 [OF Some]] by simp
    qed
  qed
qed

lemma posts_mining: "posts s (fst (mining s uid now))"
proof (cases "snd (mining s uid now) = Mining_Page")
  case True
  then obtain ps where "fst (mining s uid now) = s\<lparr>purchases := ps\<rparr>"
    by (auto simp: mining_def split: option.splits)
  then show ?thesis using posts.rows [OF posts.nothing] by simp
next
  case False
  then have "fst (mining s uid now) = s"
    by (auto simp: mining_def split: option.splits)
  then show ?thesis by (simp add: posts.nothing)
qed

lemma posts_mining_claim: "posts s (fst (mining_claim s uid))"
proof (cases "get_user s uid")
  case None
  then have "fst (mining_claim s uid) = s" by (simp add: mining_claim_def)
  then show ?thesis by (simp add: posts.nothing)
next
  case (Some u)
  show ?thesis
  proof (cases "0 < positive_total s uid")
    case True
    let ?rows = "map (\<lambda>p. if purchase_user_id p = uid \<and> 0 < accrued p
                            then p\<lparr>accrued := 0\<rparr> else p) (purchases s)"
    have "fst (mining_claim s uid) =
        post uid ''mining'' (positive_total s uid) ''Claimed mining earnings''
          (s\<lparr>purchases := ?rows\<rparr>)"
      using True by (simp add: mining_claim_unfold [OF Some] post_def)
    moreover have "uid \<in> user_keys (s\<lparr>purchases := ?rows\<rparr>)"
      using get_user_in_keys [OF Some] by simp
    ultimately show ?thesis
      using posts.posting [OF posts.rows [OF posts.nothing]] by simp
  next
    case False
    then have "fst (mining_claim s uid) = s"
      by (simp add: mining_claim_unfold [OF Some])
    then show ?thesis by (simp add: posts.nothing)
  qed
qed

lemma posts_handle: "posts s (fst (handle s rq))"
  by (cases rq)
    (simp_all add: posts_register posts_recharge posts_topup posts_dollar posts_daily_claim
      posts_buy posts_mining posts_mining_claim)

lemma ledger_ok_run: "ledger_ok s \<Longrightarrow> ledger_ok (run s rqs)"
proof (induction rqs arbitrary: s)
  case Nil
  then show ?case by simp
next
  case (Cons rq rqs)
  from posts_ledger_ok [OF posts_handle Cons.prems] have "ledger_ok (fst (handle s rq))" .
  from Cons.IH [OF this] show ?case by simp
qed

lemma ledger_ok_fresh: "ledger_ok (init_db empty_store)"
  by (simp add: ledger_ok_def init_db_def empty_store_def)


lemma ledger_store:
  "run (init_db empty_store)
     [Register ''alice'' ''pw'' ''AAAAAAAA'' (Some ''ZZZZZZZZ''), Recharge 1 100,
      Topup 1 30, Daily_Claim 1 0] =
   \<lparr>users = [\<lparr>user_id = 1, username = ''alice'', balance = 75,
               referral_code = ''AAAAAAAA'', referred_by = Some ''ZZZZZZZZ'',
               last_claim_at = Some 0\<rparr>],
     transactions = [\<lparr>tx_user_id = 1, tx_type = ''recharge'', amount = 100,
                      details = ''Mobile recharge (demo credit)''\<rparr>,
                     \<lparr>tx_user_id = 1, tx_type = ''topup'', amount = - 30,
                      details = ''Diamond top-up (demo spend)''\<rparr>,
                     \<lparr>tx_user_id = 1, tx_type = ''bonus'', amount = 5,
                      details = ''Daily claim bonus''\<rparr>],
     products = seed_products, purchases = []\<rparr>"
  by (simp add: init_db_def empty_store_def register_def next_id_def recharge_def topup_def
      daily_claim_def claim_wait_def referrer_of_def get_user_def update_user_def add_tx_def)


section \<open>C9: the referrer is paid at most once\<close>

lemma daily_claim_no_user: "get_user s uid = None \<Longrightarrow> daily_claim s uid now = (s, Server_Error)"
  by (simp add: daily_claim_def)

lemma appended_same [simp]: "appended s s = []"
  by (simp add: appended_def)

lemma daily_claim_referral_txs:
  assumes "get_user s uid = Some u"
  shows "filter is_referral_bonus (appended s (fst (daily_claim s uid now))) =
          (case claim_wait u now of
             Some remaining \<Rightarrow> []
           | None \<Rightarrow>
              (case (case referred_by u of
                       None \<Rightarrow> None
                     | Some c \<Rightarrow> if c = [] then None
                                 else find (\<lambda>r. referral_code r = c) (users s)) of
                 None \<Rightarrow> []
               | Some r \<Rightarrow> [\<lparr>tx_user_id = user_id r, tx_type = ''bonus'', amount = 1,
                              details = ''Referral bonus from '' @ username u\<rparr>]))"
proof (cases "claim_wait u now")
  case (Some remaining)
  then have "fst (daily_claim s uid now) = s"
    using assms by (simp add: daily_claim_def)
  then show ?thesis using Some by simp
next
  case None
  show ?thesis
    unfolding appended_def daily_claim_grants(3) [OF assms None]
    using None by (simp add: is_referral_bonus_def split: option.splits)
qed

lemma daily_claim_referred_by:
  assumes "get_user s uid = Some u"
  shows "map_option referred_by (get_user (fst (daily_claim s uid now)) uid) =
          Some (case claim_wait u now of
                  Some remaining \<Rightarrow> referred_by u
                | None \<Rightarrow>
                   (case (case referred_by u of
                            None \<Rightarrow> None
                          | Some c \<Rightarrow> if c = [] then None
                                      else find (\<lambda>r. referral_code r = c) (users s)) of
                      None \<Rightarrow> referred_by u
                    | Some r \<Rightarrow> None))"
  using assms get_user_key [OF assms]
  by (auto simp: daily_claim_def referrer_of_def Let_def get_user_update_user
      split: option.splits)

lemma other_requests_keep_referred_by:
  assumes "get_user s uid = Some u" and "\<And>now. rq \<noteq> Daily_Claim uid now"
  shows "\<exists>u'. get_user (fst (handle s rq)) uid = Some u' \<and> referred_by u' = referred_by u"
proof (cases rq)
  case (Register name password code ref)
  then show ?thesis using assms(1) by (simp add: register_user_frame)
next
  case (Recharge k amt)
  then show ?thesis using assms(1)
    by (auto simp: recharge_def get_user_update_user split: option.splits)
next
  case (Topup k amt)
  then show ?thesis using assms(1)
    by (auto simp: topup_def get_user_update_user split: option.splits)
next
  case (Dollar k action amt)
  then show ?thesis using assms(1)
    by (auto simp: dollar_def get_user_update_user split: option.splits)
next
  case (Daily_Claim k now)
  with assms(2) have "k \<noteq> uid" by auto
  with Daily_Claim show ?thesis using assms(1)
    by (auto simp: daily_claim_def Let_def get_user_update_user split: option.splits)
next
  case (Buy k sl t1 t2)
  then show ?thesis using assms(1)
    by (auto simp: buy_def Let_def get_user_update_user split: option.splits)
next
  case (Mining k now)
  then show ?thesis using assms(1)
    by (auto simp: mining_def split: option.splits)
next
  case (Mining_Claim k)
  then show ?thesis using assms(1)
    by (auto simp: mining_claim_def Let_def get_user_update_user
        split: option.splits prod.splits)
qed


lemma payout_at_other: "(\<And>now. rq \<noteq> Daily_Claim uid now) \<Longrightarrow> payout_at s rq uid = 0"
  by (cases rq) (auto simp: payout_at_def)

lemma payout_at_claim:
  "payout_at s (Daily_Claim uid now) uid =
     length (filter is_referral_bonus (appended s (fst (daily_claim s uid now))))"
  by (simp add: payout_at_def)

lemma clearing_at_user:
  "get_user s uid = Some u \<Longrightarrow> get_user (fst (handle s rq)) uid = Some u' \<Longrightarrow>
     clearing_at s rq uid = (if referred_by u \<noteq> None \<and> referred_by u' = None then 1 else 0)"
  by (simp add: clearing_at_def)

lemma clearing_at_no_user: "get_user s uid = None \<Longrightarrow> clearing_at s rq uid = 0"
  by (simp add: clearing_at_def)

lemma referral_step:
  "(payout_at s rq uid = 0 \<and> clearing_at s rq uid = 0) \<or>
   (payout_at s rq uid = 1 \<and> clearing_at s rq uid = 1 \<and>
    (\<exists>u'. get_user (fst (handle s rq)) uid = Some u' \<and> referred_by u' = None))"
proof (cases "get_user s uid")
  case None
  have "payout_at s rq uid = 0"
  proof (cases "\<exists>now. rq = Daily_Claim uid now")
    case True
    then obtain now where "rq = Daily_Claim uid now" by blast
    then show ?thesis
      using daily_claim_no_user [OF None, of now] by (simp add: payout_at_claim)
  next
    case False
    then show ?thesis by (intro payout_at_other) blast
  qed
  then show ?thesis using clearing_at_no_user [OF None] by simp
next
  case (Some u)
  show ?thesis
  proof (cases "\<exists>now. rq = Daily_Claim uid now")
    case False
    then have n: "\<And>now. rq \<noteq> Daily_Claim uid now" by blast
    from other_requests_keep_referred_by [OF Some n]
    obtain u' where g': "get_user (fst (handle s rq)) uid = Some u'"
      and e: "referred_by u' = referred_by u" by blast
    have "clearing_at s rq uid = 0"
      unfolding clearing_at_user [OF Some g'] e by (cases "referred_by u") simp_all
    then show ?thesis using payout_at_other [OF n] by simp
  next
    case True
    then obtain now where rq: "rq = Daily_Claim uid now" by blast
    let ?res = "case referred_by u of
                  None \<Rightarrow> None
                | Some c \<Rightarrow> if c = [] then None
                            else find (\<lambda>r. referral_code r = c) (users s)"
    from daily_claim_referred_by [OF Some, of now]
    obtain u' where u': "get_user (fst (daily_claim s uid now)) uid = Some u'"
      and rb: "referred_by u' =
          (case claim_wait u now of
             Some remaining \<Rightarrow> referred_by u
           | None \<Rightarrow> (case ?res of None \<Rightarrow> referred_by u | Some r \<Rightarrow> None))"
      by auto
    note tx = daily_claim_referral_txs [OF Some, of now]
    have cl: "clearing_at s rq uid =
        (if referred_by u \<noteq> None \<and> referred_by u' = None then 1 else 0)"
      using clearing_at_user [OF Some, of rq u'] u' rq by simp
    show ?thesis
    proof (cases "claim_wait u now = None \<and> ?res \<noteq> None")
      case True
      then obtain r where r: "?res = Some r" by blast
      have some: "referred_by u \<noteq> None"
        using r by (auto split: option.splits)
      have "referred_by u' = None"
        using rb True r by simp
      moreover have "payout_at s rq uid = 1"
        using tx True r by (simp add: rq payout_at_claim)
      ultimately show ?thesis
        using cl some u' rq by simp
    next
      case False
      then have "referred_by u' = referred_by u"
        using rb by (auto split: option.splits)
      moreover have "payout_at s rq uid = 0"
        using tx False by (auto simp: rq payout_at_claim split: option.splits)
      ultimately show ?thesis
        using cl by (cases "referred_by u") auto
    qed
  qed
qed

lemma cleared_stays:
  assumes "get_user s uid = Some u" and "referred_by u = None"
  shows "payout_at s rq uid = 0 \<and> clearing_at s rq uid = 0 \<and>
         (\<exists>u'. get_user (fst (handle s rq)) uid = Some u' \<and> referred_by u' = None)"
proof -
  from handle_user_frame [OF assms(1), of rq] assms(2)
  obtain u' where u': "get_user (fst (handle s rq)) uid = Some u'" and n: "referred_by u' = None"
    by auto
  have c: "clearing_at s rq uid = 0"
    using clearing_at_user [OF assms(1) u'] assms(2) by simp
  with referral_step [of s rq uid] have "payout_at s rq uid = 0" by auto
  with c u' n show ?thesis by blast
qed

lemma nothing_after_clearing:
  assumes "get_user s uid = Some u" and "referred_by u = None"
  shows "referral_payouts s rqs uid = 0 \<and> referral_clearings s rqs uid = 0"
  using assms
proof (induction rqs arbitrary: s u)
  case Nil
  then show ?case by simp
next
  case (Cons rq rqs)
  from cleared_stays [OF Cons.prems, of rq]
  obtain u' where z: "payout_at s rq uid = 0" "clearing_at s rq uid = 0"
    and u': "get_user (fst (handle s rq)) uid = Some u'" and n: "referred_by u' = None"
    by blast
  from Cons.IH [OF u' n] z show ?case by simp
qed

lemma at_most_one_payout:
  "referral_payouts s rqs uid \<le> 1 \<and> referral_clearings s rqs uid \<le> 1"
proof (induction rqs arbitrary: s)
  case Nil
  then show ?case by simp
next
  case (Cons rq rqs)
  from referral_step [of s rq uid]
  consider (quiet) "payout_at s rq uid = 0" "clearing_at s rq uid = 0"
    | (paid) u' where "payout_at s rq uid = 1" "clearing_at s rq uid = 1"
        "get_user (fst (handle s rq)) uid = Some u'" "referred_by u' = None"
    by auto
  then show ?case
  proof cases
    case quiet
    with Cons.IH [of "fst (handle s rq)"] show ?thesis by simp
  next
    case paid
    with nothing_after_clearing [OF paid(3,4), of rqs] show ?thesis by simp
  qed
qed

text \<open>
  C9 (as amended). For every user and every sequence of requests, the daily claims of the
  user append at most one referrer bonus (amount 1, type \<open>bonus\<close>) in total, and the
  user's \<open>referred_by\<close> is cleared at most once. A daily claim of the user pays the
  referrer and clears \<open>referred_by\<close> exactly when the claim is granted and \<open>referred_by\<close>
  is a non-empty code that some user has; a granted claim at which the code resolves to
  nobody pays nothing and keeps \<open>referred_by\<close>. No other request changes the user's
  \<open>referred_by\<close> or pays a referrer bonus on the user's behalf, and once \<open>referred_by\<close> is
  unset no later request pays or clears again.
\<close>

theorem referral_paid_at_most_once:
  "referral_payouts s rqs uid \<le> 1 \<and> referral_clearings s rqs uid \<le> 1 \<and>
   (get_user s uid = Some u \<longrightarrow>
      filter is_referral_bonus (appended s (fst (daily_claim s uid now))) =
        (case claim_wait u now of
           Some remaining \<Rightarrow> []
         | None \<Rightarrow>
            (case (case referred_by u of
                          None \<Rightarrow> None
                        | Some c \<Rightarrow> if c = [] then None
                                    else find (\<lambda>r. referral_code r = c) (users s)) of
               None \<Rightarrow> []
             | Some r \<Rightarrow> [\<lparr>tx_user_id = user_id r, tx_type = ''bonus'', amount = 1,
                            details = ''Referral bonus from '' @ username u\<rparr>])) \<and>
      map_option referred_by (get_user (fst (daily_claim s uid now)) uid) =
        Some (case claim_wait u now of
                Some remaining \<Rightarrow> referred_by u
              | None \<Rightarrow>
                 (case (case referred_by u of
                          None \<Rightarrow> None
                        | Some c \<Rightarrow> if c = [] then None
                                    else find (\<lambda>r. referral_code r = c) (users s)) of
                    None \<Rightarrow> referred_by u
                  | Some r \<Rightarrow> None))) \<and>
   (get_user s uid = Some u \<and> (\<forall>now. rq \<noteq> Daily_Claim uid now) \<longrightarrow>
      payout_at s rq uid = 0 \<and>
      (\<exists>u'. get_user (fst (handle s rq)) uid = Some u' \<and> referred_by u' = referred_by u)) \<and>
   (get_user s uid = Some u \<and> referred_by u = None \<longrightarrow>
      referral_payouts s rqs uid = 0 \<and> referral_clearings s rqs uid = 0)"
proof -
  note a = at_most_one_payout [of s rqs uid]
  have b: "get_user s uid = Some u \<longrightarrow>
      filter is_referral_bonus (appended s (fst (daily_claim s uid now))) =
        (case claim_wait u now of
           Some remaining \<Rightarrow> []
         | None \<Rightarrow>
            (case (case referred_by u of
                          None \<Rightarrow> None
                        | Some c \<Rightarrow> if c = [] then None
                                    else find (\<lambda>r. referral_code r = c) (users s)) of
               None \<Rightarrow> []
             | Some r \<Rightarrow> [\<lparr>tx_user_id = user_id r, tx_type = ''bonus'', amount = 1,
                            details = ''Referral bonus from '' @ username u\<rparr>])) \<and>
      map_option referred_by (get_user (fst (daily_claim s uid now)) uid) =
        Some (case claim_wait u now of
                Some remaining \<Rightarrow> referred_by u
              | None \<Rightarrow>
                 (case (case referred_by u of
                          None \<Rightarrow> None
                        | Some c \<Rightarrow> if c = [] then None
                                    else find (\<lambda>r. referral_code r = c) (users s)) of
                    None \<Rightarrow> referred_by u
                  | Some r \<Rightarrow> None))"
    using daily_claim_referral_txs [of s uid u now] daily_claim_referred_by [of s uid u now]
    by blast
  have c: "get_user s uid = Some u \<and> (\<forall>now. rq \<noteq> Daily_Claim uid now) \<longrightarrow>
      payout_at s rq uid = 0 \<and>
      (\<exists>u'. get_user (fst (handle s rq)) uid = Some u' \<and> referred_by u' = referred_by u)"
    using payout_at_other [of rq uid s] other_requests_keep_referred_by [of s uid u rq]
    by blast
  have d: "get_user s uid = Some u \<and> referred_by u = None \<longrightarrow>
      referral_payouts s rqs uid = 0 \<and> referral_clearings s rqs uid = 0"
    using nothing_after_clearing [of s uid u rqs] by blast
  from a b c d show ?thesis
    by (intro conjI) simp_all
qed

lemma referral_store:
  "run (init_db empty_store)
     [Register ''bob'' ''pw'' ''BBBBBBBB'' None,
      Register ''amy'' ''pw'' ''AMYAMY01'' (Some ''BBBBBBBB'')] =
   \<lparr>users = [\<lparr>user_id = 1, username = ''bob'', balance = 0,
               referral_code = ''BBBBBBBB'', referred_by = None, last_claim_at = None\<rparr>,
              \<lparr>user_id = 2, username = ''amy'', balance = 0,
               referral_code = ''AMYAMY01'', referred_by = Some ''BBBBBBBB'',
               last_claim_at = None\<rparr>],
     transactions = [], products = seed_products, purchases = []\<rparr>"
  by (simp add: init_db_def empty_store_def register_def next_id_def)

text \<open>
  The theorem at a run from the fresh database: amy registers through bob's link; her
  first claim pays bob 1 and clears her \<open>referred_by\<close>; over three daily claims bob is paid
  once.
\<close>

theorem referral_paid_at_most_once_witness:
  "filter is_referral_bonus
     (appended
        (run (init_db empty_store)
           [Register ''bob'' ''pw'' ''BBBBBBBB'' None,
            Register ''amy'' ''pw'' ''AMYAMY01'' (Some ''BBBBBBBB'')])
        (fst (daily_claim
           (run (init_db empty_store)
              [Register ''bob'' ''pw'' ''BBBBBBBB'' None,
               Register ''amy'' ''pw'' ''AMYAMY01'' (Some ''BBBBBBBB'')]) 2 0))) =
     [\<lparr>tx_user_id = 1, tx_type = ''bonus'', amount = 1,
       details = ''Referral bonus from amy''\<rparr>] \<and>
   map_option referred_by (get_user (fst (daily_claim
           (run (init_db empty_store)
              [Register ''bob'' ''pw'' ''BBBBBBBB'' None,
               Register ''amy'' ''pw'' ''AMYAMY01'' (Some ''BBBBBBBB'')]) 2 0)) 2) = Some None \<and>
   referral_payouts (init_db empty_store)
     [Register ''bob'' ''pw'' ''BBBBBBBB'' None,
      Register ''amy'' ''pw'' ''AMYAMY01'' (Some ''BBBBBBBB''),
      Daily_Claim 2 0, Daily_Claim 2 86400000000, Daily_Claim 2 172800000000] 2 = 1 \<and>
   map balance (users (run (init_db empty_store)
     [Register ''bob'' ''pw'' ''BBBBBBBB'' None,
      Register ''amy'' ''pw'' ''AMYAMY01'' (Some ''BBBBBBBB''),
      Daily_Claim 2 0, Daily_Claim 2 86400000000, Daily_Claim 2 172800000000])) = [1, 15]"
proof -
  let ?amy = "\<lparr>user_id = 2, username = ''amy'', balance = 0,
               referral_code = ''AMYAMY01'', referred_by = Some ''BBBBBBBB'',
               last_claim_at = None\<rparr>"
  define s0 where "s0 = run (init_db empty_store)
           [Register ''bob'' ''pw'' ''BBBBBBBB'' None,
            Register ''amy'' ''pw'' ''AMYAMY01'' (Some ''BBBBBBBB'')]"
  have store: "s0 =
   \<lparr>users = [\<lparr>user_id = 1, username = ''bob'', balance = 0,
               referral_code = ''BBBBBBBB'', referred_by = None, last_claim_at = None\<rparr>,
              ?amy],
     transactions = [], products = seed_products, purchases = []\<rparr>"
    unfolding s0_def by (rule referral_store)
  have g: "get_user s0 2 = Some ?amy"
    unfolding store by (simp add: get_user_def)
  have us: "users s0 =
      [\<lparr>user_id = 1, username = ''bob'', balance = 0,
               referral_code = ''BBBBBBBB'', referred_by = None, last_claim_at = None\<rparr>,
              ?amy]"
    unfolding store by simp
  have w: "claim_wait ?amy 0 = None"
    by (simp add: claim_wait_def)
  note t = referral_paid_at_most_once [where s = s0 and uid = 2 and u = ?amy and now = 0]
  have 1: "filter is_referral_bonus (appended s0 (fst (daily_claim s0 2 0))) =
     [\<lparr>tx_user_id = 1, tx_type = ''bonus'', amount = 1,
       details = ''Referral bonus from amy''\<rparr>] \<and>
     map_option referred_by (get_user (fst (daily_claim s0 2 0)) 2) = Some None"
    using t g w by (simp add: us)
  have 2: "referral_payouts (init_db empty_store)
     [Register ''bob'' ''pw'' ''BBBBBBBB'' None,
      Register ''amy'' ''pw'' ''AMYAMY01'' (Some ''BBBBBBBB''),
      Daily_Claim 2 0, Daily_Claim 2 86400000000, Daily_Claim 2 172800000000] 2 = 1"
    by (simp add: init_db_def empty_store_def register_def next_id_def daily_claim_def
      get_user_def update_user_def add_tx_def claim_wait_def referrer_of_def hours24_def
      payout_at_def appended_def is_referral_bonus_def)
  have 3: "map balance (users (run (init_db empty_store)
     [Register ''bob'' ''pw'' ''BBBBBBBB'' None,
      Register ''amy'' ''pw'' ''AMYAMY01'' (Some ''BBBBBBBB''),
      Daily_Claim 2 0, Daily_Claim 2 86400000000, Daily_Claim 2 172800000000])) = [1, 15]"
    by (simp add: init_db_def empty_store_def register_def next_id_def daily_claim_def
      get_user_def update_user_def add_tx_def claim_wait_def referrer_of_def hours24_def)
  from 1 2 3 show ?thesis
    unfolding s0_def by (intro conjI) simp_all
qed

text \<open>
  C9 as the specification states it has \<open>referred_by\<close> consumed exactly at the first
  successful daily claim. kim registers through a link whose code nobody has; her first
  claim is granted, pays nobody and keeps the code. After lee's registration draws that
  code, kim's second claim, 24 hours later, pays lee and clears \<open>referred_by\<close>: the
  referral is consumed at the second successful claim.
\<close>

theorem referral_first_claim_counterexample:
  "snd (daily_claim (run (init_db empty_store)
      [Register ''kim'' ''pw'' ''KKKKKKKK'' (Some ''LATER001'')]) 1 0) = Daily_Bonus_Claimed \<and>
   map_option referred_by (get_user (run (init_db empty_store)
      [Register ''kim'' ''pw'' ''KKKKKKKK'' (Some ''LATER001''), Daily_Claim 1 0]) 1) =
     Some (Some ''LATER001'') \<and>
   referral_payouts (init_db empty_store)
      [Register ''kim'' ''pw'' ''KKKKKKKK'' (Some ''LATER001''), Daily_Claim 1 0] 1 = 0 \<and>
   referral_payouts (init_db empty_store)
      [Register ''kim'' ''pw'' ''KKKKKKKK'' (Some ''LATER001''), Daily_Claim 1 0,
       Register ''lee'' ''pw'' ''LATER001'' None, Daily_Claim 1 86400000000] 1 = 1 \<and>
   map_option referred_by (get_user (run (init_db empty_store)
      [Register ''kim'' ''pw'' ''KKKKKKKK'' (Some ''LATER001''), Daily_Claim 1 0,
       Register ''lee'' ''pw'' ''LATER001'' None, Daily_Claim 1 86400000000]) 1) = Some None \<and>
   map balance (users (run (init_db empty_store)
      [Register ''kim'' ''pw'' ''KKKKKKKK'' (Some ''LATER001''), Daily_Claim 1 0,
       Register ''lee'' ''pw'' ''LATER001'' None, Daily_Claim 1 86400000000])) = [10, 1]"
  by (simp add: init_db_def empty_store_def register_def next_id_def daily_claim_def
      get_user_def update_user_def add_tx_def claim_wait_def referrer_of_def hours24_def
      payout_at_def appended_def is_referral_bonus_def)

section \<open>C2: the balance is never negative\<close>

subsection \<open>Finite amounts\<close>

text \<open>
  Over the real numbers every route keeps \<open>balances_ok\<close>: \<^verbatim>\<open>topup\<close>, the buy branch of
  \<^verbatim>\<open>dollar\<close> and \<^verbatim>\<open>buy\<close> subtract only what their test found covered by the balance, and
  every other change of a balance adds a positive amount (the parsed amount after its
  test, the bonuses 5.0 and 1.0, the mining total after \<^verbatim>\<open>if total > 0\<close>). No assumption
  on prices or hourly rates is needed.
\<close>

lemma find_distinct_key:
  assumes "distinct (map user_id us)" and "find (\<lambda>u. user_id u = k) us = Some u"
    and "v \<in> set us" and "user_id v = k"
  shows "v = u"
proof -
  have "u \<in> set us" and "user_id u = k"
    using assms(2) by (auto simp: find_Some_iff)
  moreover have "inj_on user_id (set us)"
    using assms(1) by (simp add: distinct_map)
  ultimately show ?thesis
    using assms(3,4) by (auto dest: inj_onD)
qed

lemma balances_ok_update:
  assumes ok: "balances_ok s" and g: "get_user s uid = Some u"
    and key: "\<And>v. user_id (f v) = user_id v" and b: "0 \<le> balance (f u)"
  shows "balances_ok (update_user uid f s)"
proof -
  have d: "distinct (map user_id (users s))" and nn: "\<forall>v \<in> set (users s). 0 \<le> balance v"
    using ok by (simp_all add: balances_ok_def)
  have m: "map user_id (users (update_user uid f s)) = map user_id (users s)"
    by (simp add: key o_def cong: map_cong)
  have "0 \<le> balance w" if w: "w \<in> set (users (update_user uid f s))" for w
  proof -
    from w obtain v where v: "v \<in> set (users s)"
      and wv: "w = (if user_id v = uid then f v else v)"
      by auto
    show ?thesis
    proof (cases "user_id v = uid")
      case True
      then have "v = u"
        using find_distinct_key [OF d _ v] g by (simp add: get_user_def)
      then show ?thesis using wv True b by simp
    next
      case False
      then show ?thesis using wv v nn by simp
    qed
  qed
  then show ?thesis
    unfolding balances_ok_def m using d by blast
qed

lemma balances_ok_untouched:
  assumes ok: "balances_ok s"
    and key: "\<And>v. user_id (f v) = user_id v" and b: "\<And>v. balance v \<le> balance (f v)"
  shows "balances_ok (update_user uid f s)"
proof -
  have d: "distinct (map user_id (users s))" and nn: "\<forall>v \<in> set (users s). 0 \<le> balance v"
    using ok by (simp_all add: balances_ok_def)
  have m: "map user_id (users (update_user uid f s)) = map user_id (users s)"
    by (simp add: key o_def cong: map_cong)
  have "0 \<le> balance w" if w: "w \<in> set (users (update_user uid f s))" for w
  proof -
    from w obtain v where v: "v \<in> set (users s)"
      and wv: "w = (if user_id v = uid then f v else v)"
      by auto
    have "0 \<le> balance v" using v nn by simp
    also have "balance v \<le> balance w" using wv b [of v] by simp
    finally show ?thesis .
  qed
  then show ?thesis
    unfolding balances_ok_def m using d by blast
qed

lemma balances_ok_add_tx [simp]: "balances_ok (add_tx t s) = balances_ok s"
  by (simp add: balances_ok_def)

lemma balances_ok_purchases [simp]: "balances_ok (s\<lparr>purchases := ps\<rparr>) = balances_ok s"
  by (simp add: balances_ok_def)

lemma balances_ok_register:
  assumes "balances_ok s"
  shows "balances_ok (fst (register s name password code ref))"
  using assms next_id_fresh [of "map user_id (users s)"]
  by (auto simp: register_def balances_ok_def)

lemma balances_ok_recharge:
  assumes "balances_ok s"
  shows "balances_ok (fst (recharge s uid amt))"
  using assms
  by (auto simp: recharge_def split: option.splits intro!: balances_ok_untouched)

lemma balances_ok_topup:
  assumes "balances_ok s"
  shows "balances_ok (fst (topup s uid amt))"
  using assms
  by (auto simp: topup_def split: option.splits intro!: balances_ok_update)

lemma balances_ok_dollar:
  assumes "balances_ok s"
  shows "balances_ok (fst (dollar s uid action amt))"
proof (cases "get_user s uid")
  case None
  then show ?thesis using assms by (simp add: dollar_def)
next
  case (Some u)
  have buy: "balances_ok (update_user uid (\<lambda>v. v\<lparr>balance := balance v - amt\<rparr>) s)"
    if "amt \<le> balance u"
    using assms Some that by (intro balances_ok_update [where u = u]) simp_all
  have sell: "balances_ok (update_user uid (\<lambda>v. v\<lparr>balance := balance v + amt\<rparr>) s)"
    if "0 < amt"
    using assms that by (intro balances_ok_untouched) simp_all
  show ?thesis
    using assms Some buy sell by (simp add: dollar_def)
qed

lemma balances_ok_daily_claim:
  assumes "balances_ok s"
  shows "balances_ok (fst (daily_claim s uid now))"
  using assms
  by (auto simp: daily_claim_def Let_def split: option.splits intro!: balances_ok_untouched)

lemma balances_ok_buy:
  assumes "balances_ok s"
  shows "balances_ok (fst (buy s uid sl tp tm))"
proof (cases "buy s uid sl tp tm = (s, Product_Not_Found) \<or> buy s uid sl tp tm = (s, Server_Error)
    \<or> buy s uid sl tp tm = (s, Insufficient_To_Buy)")
  case True
  then show ?thesis using assms by auto
next
  case False
  then obtain p u where p: "find (\<lambda>p. slug p = sl \<and> active p) (products s) = Some p"
    and u: "get_user s uid = Some u" and b: "\<not> balance u < price p"
    by (auto simp: buy_def split: option.splits if_splits)
  have "balances_ok (update_user uid (\<lambda>v. v\<lparr>balance := balance v - price p\<rparr>) s)"
    using assms u b by (intro balances_ok_update [where u = u]) simp_all
  then show ?thesis
    using p u b by (simp add: buy_def Let_def balances_ok_def)
qed

lemma balances_ok_mining:
  assumes "balances_ok s"
  shows "balances_ok (fst (mining s uid now))"
  using assms by (auto simp: mining_def split: option.splits)

lemma balances_ok_mining_claim:
  assumes "balances_ok s"
  shows "balances_ok (fst (mining_claim s uid))"
proof (cases "get_user s uid")
  case None
  then show ?thesis using assms by (simp add: mining_claim_def)
next
  case (Some u)
  show ?thesis
    using assms by (simp add: mining_claim_unfold [OF Some] balances_ok_untouched)
qed

lemma balances_ok_handle:
  assumes "balances_ok s"
  shows "balances_ok (fst (handle s rq))"
  using assms
  by (cases rq)
    (simp_all add: balances_ok_register balances_ok_recharge balances_ok_topup
      balances_ok_dollar balances_ok_daily_claim balances_ok_buy balances_ok_mining
      balances_ok_mining_claim)

lemma balances_ok_run:
  assumes "balances_ok s"
  shows "balances_ok (run s rqs)"
  using assms by (induction rqs arbitrary: s) (simp_all add: balances_ok_handle)

lemma balances_ok_fresh: "balances_ok (init_db empty_store)"
  by (simp add: balances_ok_def init_db_def empty_store_def)

subsection \<open>Amounts that are not finite\<close>

text \<open>
  On finite amounts the routes read on floats commit the balance that the routes of the
  model commit.
\<close>

lemma recharge_float_finite:
  assumes "get_user s uid = Some u"
  shows "map_option balance (get_user (fst (recharge s uid amt)) uid) =
           Some b \<longleftrightarrow> fst (recharge_float (Finite (balance u)) (Finite amt)) = Finite b"
  using assms
  by (auto simp: recharge_def recharge_float_def py_gt_def get_user_update_user)

lemma topup_float_finite:
  assumes "get_user s uid = Some u"
  shows "map_option balance (get_user (fst (topup s uid amt)) uid) =
           Some b \<longleftrightarrow> fst (topup_float (Finite (balance u)) (Finite amt)) = Finite b"
  using assms
  by (auto simp: topup_def topup_float_def py_gt_def py_ge_def py_sub_def get_user_update_user)

lemma dollar_float_finite:
  assumes "get_user s uid = Some u"
  shows "map_option balance (get_user (fst (dollar s uid action amt)) uid) =
           Some b \<longleftrightarrow> fst (dollar_float (Finite (balance u)) action (Finite amt)) = Finite b"
  using assms
  by (auto simp: dollar_def dollar_float_def py_ge_def py_sub_def get_user_update_user)

text \<open>
  With the balance at infinity (a recharge of \<^verbatim>\<open>inf\<close> passes \<^verbatim>\<open>amount > 0\<close>), a top-up of
  \<^verbatim>\<open>inf\<close> passes both tests of \<^verbatim>\<open>topup\<close> and commits \<^verbatim>\<open>inf - inf\<close>, which is NaN.
\<close>

lemma topup_inf_minus_inf:
  "recharge_float (Finite 0) Pos_Inf = (Pos_Inf, Some Pos_Inf) \<and>
   topup_float Pos_Inf Pos_Inf = (NaN, Some Neg_Inf)"
  by (simp add: topup_float_def recharge_float_def py_gt_def py_ge_def py_sub_def)

text \<open>
  C2, at the amount \<^verbatim>\<open>nan\<close>. A user with balance 0.0 posts \<^verbatim>\<open>action=sell\<close>, \<^verbatim>\<open>amount=nan\<close> to
  \<^verbatim>\<open>dollar\<close>. The rejection test \<^verbatim>\<open>amount <= 0\<close> is \<^verbatim>\<open>False\<close> for NaN, so the route goes on:
  the sell branch adds NaN to the balance and records a transaction of amount NaN. The
  committed balance is NaN, for which \<^verbatim>\<open>balance >= 0\<close> is \<^verbatim>\<open>False\<close>. The sibling routes
  \<^verbatim>\<open>recharge\<close> and \<^verbatim>\<open>topup\<close>, whose test is \<^verbatim>\<open>amount > 0\<close>, reject the same amount and leave
  the balance at 0.0 with no transaction.
\<close>

theorem dollar_sell_accepts_nan:
  "dollar_float (Finite 0) (Some ''sell'') NaN = (NaN, Some NaN) \<and>
   \<not> py_ge (fst (dollar_float (Finite 0) (Some ''sell'') NaN)) (Finite 0) \<and>
   recharge_float (Finite 0) NaN = (Finite 0, None) \<and>
   topup_float (Finite 0) NaN = (Finite 0, None)"
  by (simp add: dollar_float_def recharge_float_def topup_float_def py_gt_def py_ge_def)

end
